theory Spec2Isabelle
  imports Complex_Main "HOL-Library.Code_Target_Numeral"
begin

section \<open>Python values used by app.py\<close>

text \<open>
  A Python \<open>str\<close> is a sequence of code points. The model uses HOL's \<open>string\<close> with one
  \<open>char\<close> per code point, which covers the code points U+0000 to U+00FF; the character
  classes below are Python's on that range. Exceptions are values of \<open>py_error\<close>, and a
  computation that may raise returns \<open>py_error + 'a\<close> with \<open>Inl\<close> the raised exception.
\<close>

datatype py_error = ValueError | TypeError | IndexError | AttributeError | HttpError

definition bind_exc :: "py_error + 'a \<Rightarrow> ('a \<Rightarrow> py_error + 'b) \<Rightarrow> py_error + 'b" where
  "bind_exc r f = (case r of Inl e \<Rightarrow> Inl e | Inr a \<Rightarrow> f a)"

text \<open>\<open>xs[i]\<close> for \<open>i \<ge> 0\<close>: IndexError out of range.\<close>

definition item :: "'a list \<Rightarrow> nat \<Rightarrow> py_error + 'a" where
  "item xs i = (if i < length xs then Inr (xs ! i) else Inl IndexError)"

text \<open>\<open>xs[-1]\<close>: IndexError on the empty list.\<close>

definition item_last :: "'a list \<Rightarrow> py_error + 'a" where
  "item_last xs = (if xs = [] then Inl IndexError else Inr (last xs))"

text \<open>
  \<open>str.isspace\<close>, \<open>str.isdigit\<close> and \<open>str.isdecimal\<close> of one character. On U+0000..U+00FF
  the whitespace characters are U+0009..U+000D, U+001C..U+0020, U+0085 and U+00A0; the
  decimal characters are \<open>0\<close>..\<open>9\<close>; \<open>isdigit\<close> also holds for the superscript digits
  U+00B2, U+00B3 and U+00B9.
\<close>

definition isspace :: "char \<Rightarrow> bool" where
  "isspace c = (let n = (of_char c :: nat) in
     (9 \<le> n \<and> n \<le> 13) \<or> (28 \<le> n \<and> n \<le> 32) \<or> n = 133 \<or> n = 160)"

definition isdecimal :: "char \<Rightarrow> bool" where
  "isdecimal c = (let n = (of_char c :: nat) in 48 \<le> n \<and> n \<le> 57)"

definition isdigit :: "char \<Rightarrow> bool" where
  "isdigit c = (let n = (of_char c :: nat) in
     (48 \<le> n \<and> n \<le> 57) \<or> n = 178 \<or> n = 179 \<or> n = 185)"

text \<open>\<open>s.strip()\<close>, \<open>s.rstrip(chars)\<close>, \<open>s.startswith(p)\<close> and \<open>sub in s\<close>.\<close>

definition strip :: "string \<Rightarrow> string" where
  "strip s = rev (dropWhile isspace (rev (dropWhile isspace s)))"

definition rstrip :: "string \<Rightarrow> string \<Rightarrow> string" where
  "rstrip s chars = rev (dropWhile (\<lambda>c. List.member chars c) (rev s))"

fun startswith :: "string \<Rightarrow> string \<Rightarrow> bool" where
  "startswith s [] = True"
| "startswith [] (p # ps) = False"
| "startswith (c # cs) (p # ps) = (c = p \<and> startswith cs ps)"

fun contains :: "string \<Rightarrow> string \<Rightarrow> bool" where
  "contains sub [] = (sub = [])"
| "contains sub (c # cs) = (startswith (c # cs) sub \<or> contains sub cs)"

text \<open>
  \<open>s.split(sep)\<close> for a non-empty separator: the pieces between the leftmost
  non-overlapping occurrences of \<open>sep\<close>. \<open>cur\<close> is the piece being read. app.py only
  splits at the literals \<open>"/channel/"\<close>, \<open>"/"\<close> and \<open>"?"\<close>.
\<close>

function split_from :: "string \<Rightarrow> string \<Rightarrow> string \<Rightarrow> string list" where
  "split_from sep cur [] = [cur]"
| "split_from sep cur (c # cs) =
     (if sep \<noteq> [] \<and> startswith (c # cs) sep
      then cur # split_from sep [] (drop (length sep) (c # cs))
      else split_from sep (cur @ [c]) cs)"
  by pat_completeness auto
termination
  by (relation "measure (\<lambda>(sep, cur, s). length s)") auto

definition split :: "string \<Rightarrow> string \<Rightarrow> string list" where
  "split s sep = split_from sep [] s"

text \<open>
  \<open>s.replace(old, new)\<close>: every leftmost non-overlapping occurrence of \<open>old\<close> becomes
  \<open>new\<close>; with an empty \<open>old\<close>, \<open>new\<close> is put before every character and at the end.
\<close>

function replace_from :: "string \<Rightarrow> string \<Rightarrow> string \<Rightarrow> string" where
  "replace_from old new [] = []"
| "replace_from old new (c # cs) =
     (if old \<noteq> [] \<and> startswith (c # cs) old
      then new @ replace_from old new (drop (length old) (c # cs))
      else c # replace_from old new cs)"
  by pat_completeness auto
termination
  by (relation "measure (\<lambda>(old, new, s). length s)") auto

definition replace :: "string \<Rightarrow> string \<Rightarrow> string \<Rightarrow> string" where
  "replace s old new =
     (if old = [] then new @ concat (map (\<lambda>c. c # new) s) else replace_from old new s)"

text \<open>
  \<open>int(num)\<close> for a string of \<open>isdigit\<close> characters, the only strings
  \<open>parse_iso8601_duration_to_seconds\<close> passes to it: the decimal value when every
  character is a decimal digit, ValueError otherwise (the superscript digits are digits
  for \<open>isdigit\<close> and no digits for \<open>int\<close>). CPython (3.11, and 3.7.14 and later) also
  raises ValueError for a string of more digits than \<open>sys.get_int_max_str_digits()\<close>,
  4300 unless it is configured otherwise.
\<close>

definition INT_MAX_STR_DIGITS :: nat where
  "INT_MAX_STR_DIGITS = 4300"

definition digit_value :: "char \<Rightarrow> nat" where
  "digit_value c = of_char c - 48"

definition decimal_value :: "string \<Rightarrow> nat" where
  "decimal_value num = foldl (\<lambda>a c. 10 * a + digit_value c) 0 num"

definition int_of_digits :: "string \<Rightarrow> py_error + nat" where
  "int_of_digits num =
     (if num \<noteq> [] \<and> list_all isdecimal num \<and> length num \<le> INT_MAX_STR_DIGITS
      then Inr (decimal_value num) else Inl ValueError)"

text \<open>\<open>str(n)\<close> of an integer.\<close>

definition digit_char :: "nat \<Rightarrow> char" where
  "digit_char d = ''0123456789'' ! d"

fun str_nat :: "nat \<Rightarrow> string" where
  "str_nat n = (if n < 10 then [digit_char n] else str_nat (n div 10) @ [digit_char (n mod 10)])"

definition str_int :: "int \<Rightarrow> string" where
  "str_int i = (if i < 0 then CHR ''-'' # str_nat (nat (- i)) else str_nat (nat i))"

section \<open>Helpers\<close>

subsection \<open>parse\_iso8601\_duration\_to\_seconds (app.py, lines 74 to 93)\<close>

text \<open>
  The loop over the characters of \<open>dur\<close>, with the buffer \<open>num\<close> and the total \<open>sec\<close>.
\<close>

fun duration_loop :: "string \<Rightarrow> string \<Rightarrow> nat \<Rightarrow> py_error + nat" where
  "duration_loop [] num sec = Inr sec"
| "duration_loop (ch # rest) num sec =
     (if isdigit ch then duration_loop rest (num @ [ch]) sec
      else if num = [] then duration_loop rest num sec
      else if ch = CHR ''H'' then
        (case int_of_digits num of Inl e \<Rightarrow> Inl e
         | Inr n \<Rightarrow> duration_loop rest [] (sec + n * 3600))
      else if ch = CHR ''M'' then
        (case int_of_digits num of Inl e \<Rightarrow> Inl e
         | Inr n \<Rightarrow> duration_loop rest [] (sec + n * 60))
      else if ch = CHR ''S'' then
        (case int_of_digits num of Inl e \<Rightarrow> Inl e
         | Inr n \<Rightarrow> duration_loop rest [] (sec + n))
      else duration_loop rest [] sec)"

definition parse_iso8601_duration_to_seconds :: "string \<Rightarrow> py_error + nat" where
  "parse_iso8601_duration_to_seconds dur =
     (if dur = [] then Inr 0 else duration_loop (replace dur ''PT'' []) [] 0)"

text \<open>
  The algorithm in the words of the specification, which removes a leading \<open>"PT"\<close> only;
  it is compared with the function above.
\<close>

definition prefix_stripped_duration :: "string \<Rightarrow> py_error + nat" where
  "prefix_stripped_duration dur =
     (if dur = [] then Inr 0
      else duration_loop (if startswith dur ''PT'' then drop 2 dur else dur) [] 0)"

subsection \<open>extract\_channel\_from\_input (app.py, lines 96 to 115)\<close>

text \<open>\<open>inp or ""\<close>: \<open>None\<close> and the empty string give the empty string.\<close>

definition or_empty :: "string option \<Rightarrow> string" where
  "or_empty inp = (case inp of None \<Rightarrow> [] | Some s \<Rightarrow> s)"

definition extract_channel_from_input ::
  "string option \<Rightarrow> py_error + (string option \<times> string option)" where
  "extract_channel_from_input inp =
     (let s = strip (or_empty inp) in
      if s = [] then Inr (None, None)
      else if startswith s ''UC'' \<and> length s > 20
        then Inr (Some s, Some (''https://www.youtube.com/channel/'' @ s))
      else if contains ''youtube.com'' s then
        (if contains ''/channel/'' s then
           bind_exc (item (split s ''/channel/'') 1) (\<lambda>a.
           bind_exc (item (split a ''/'') 0) (\<lambda>b.
           bind_exc (item (split b ''?'') 0) (\<lambda>cid.
             Inr (Some cid, Some (''https://www.youtube.com/channel/'' @ cid)))))
         else
           bind_exc (item (split s ''?'') 0) (\<lambda>b. Inr (None, Some (rstrip b ''/''))))
      else if startswith s ''@'' then Inr (None, Some (''https://www.youtube.com/'' @ s))
      else Inr (None, Some s))"

subsection \<open>short\_number (app.py, lines 42 to 58)\<close>

text \<open>
  A float is modelled by the real number it denotes. \<open>fl x\<close> is the double nearest to
  \<open>x\<close>, a tie going to the even mantissa (IEEE 754 binary64 with 53 bits; overflow and
  subnormal numbers are not modelled): for \<open>x > 0\<close> with \<open>2 ^ e \<le> x < 2 ^ (e + 1)\<close> the
  doubles near \<open>x\<close> are the multiples of \<open>2 ^ (e - 52)\<close>. The arithmetic of floats rounds
  the exact result, and so does the division of two integers.
\<close>

definition round_half_even :: "real \<Rightarrow> int" where
  "round_half_even x =
     (let f = \<lfloor>x\<rfloor>; d = x - of_int f in
      if d < 1 / 2 then f else if 1 / 2 < d then f + 1 else if even f then f else f + 1)"

fun bit_length :: "nat \<Rightarrow> nat" where
  "bit_length n = (if n = 0 then 0 else Suc (bit_length (n div 2)))"

definition binary_exponent :: "real \<Rightarrow> int" where
  "binary_exponent x =
     (if 1 \<le> x then int (bit_length (nat \<lfloor>x\<rfloor>)) - 1
      else - int (bit_length (nat \<lceil>1 / x\<rceil> - 1)))"

definition ulp :: "real \<Rightarrow> real" where
  "ulp x = power_int 2 (binary_exponent x - 52)"

definition fl_pos :: "real \<Rightarrow> real" where
  "fl_pos x = of_int (round_half_even (x / ulp x)) * ulp x"

definition fl :: "real \<Rightarrow> real" where
  "fl x = (if x = 0 then 0 else if x < 0 then - fl_pos (- x) else fl_pos x)"

definition fadd :: "real \<Rightarrow> real \<Rightarrow> real" where "fadd a b = fl (a + b)"
definition fsub :: "real \<Rightarrow> real \<Rightarrow> real" where "fsub a b = fl (a - b)"
definition fmul :: "real \<Rightarrow> real \<Rightarrow> real" where "fmul a b = fl (a * b)"
definition fdiv :: "real \<Rightarrow> real \<Rightarrow> real" where "fdiv a b = fl (a / b)"

text \<open>
  \<open>int(x)\<close> of a float truncates toward zero; \<open>round(x)\<close> is \<open>round_half_even x\<close>;
  \<open>round(x, 2)\<close> is the double nearest to the value of \<open>x\<close> rounded to two decimals;
  \<open>fmt_round1 x\<close> is the text of \<open>round(x, 1)\<close> and of the format \<open>.1f\<close>: the value of
  \<open>x\<close> rounded to one decimal, as the integer part, a point and the decimal (the texts
  of floats from \<open>1e16\<close> on, which have an exponent, are not modelled).
\<close>

definition trunc :: "real \<Rightarrow> int" where
  "trunc x = (if 0 \<le> x then \<lfloor>x\<rfloor> else \<lceil>x\<rceil>)"

definition round2 :: "real \<Rightarrow> real" where
  "round2 x = fl (of_int (round_half_even (100 * x)) / 100)"

definition fmt_round1 :: "real \<Rightarrow> string" where
  "fmt_round1 x =
     (let t = round_half_even (10 * x) in
      (if t < 0 then ''-'' else []) @ str_nat (nat \<bar>t\<bar> div 10) @ ''.'' @ str_nat (nat \<bar>t\<bar> mod 10))"

text \<open>
  \<open>short_number\<close> is called on integers only (subscriber counts and sums of views), for
  which \<open>int(n)\<close> is \<open>n\<close>; the model is for the integers that \<open>str\<close> and \<open>float\<close>
  convert (at most 4300 digits, below \<open>2 ^ 1024\<close>). \<open>short_loop\<close> is the loop over the
  units, and its first equation the \<open>return\<close> after the loop.
\<close>

text \<open>The value after \<open>k\<close> more passes of the loop: \<open>v\<close> divided \<open>k\<close> times by \<open>1000.0\<close>.\<close>

fun scaled :: "real \<Rightarrow> nat \<Rightarrow> real" where
  "scaled v 0 = v"
| "scaled v (Suc k) = scaled (fdiv v 1000) k"

fun short_loop :: "real \<Rightarrow> string list \<Rightarrow> string" where
  "short_loop v [] = fmt_round1 v @ ''T''"
| "short_loop v (unit # units) =
     (if \<bar>v\<bar> < 1000 then
        (if unit = [] then str_int (trunc v)
         else if 100 \<le> v then str_int (round_half_even v) @ unit
         else fmt_round1 v @ unit)
      else short_loop (fdiv v 1000) units)"

definition short_number :: "int \<Rightarrow> string" where
  "short_number n =
     (if n < 1000 then str_int n
      else short_loop (fl (of_int n)) [[], ''K'', ''M'', ''B'', ''T''])"

section \<open>Video records and the originality engine\<close>

definition MAX_CHANNELS :: nat where "MAX_CHANNELS = 5"
definition SHORTS_MAX_SECONDS :: nat where "SHORTS_MAX_SECONDS = 60"
definition BATCH_SIZE :: nat where "BATCH_SIZE = 50"
definition RECENT_DAYS :: nat where "RECENT_DAYS = 30"

text \<open>
  The dictionary \<open>fetch_videos_metadata\<close> builds for one video (lines 205 to 212).
  \<open>duration_seconds\<close> is a result of \<open>parse_iso8601_duration_to_seconds\<close>, a sum of
  products of digit strings, hence a natural number; \<open>publishedAt\<close> may be \<open>None\<close>.
\<close>

record video =
  video_id :: "string option"
  title :: string
  description :: string
  publishedAt :: "string option"
  views :: int
  duration_seconds :: nat

record signals =
  desc_dup_ratio :: real
  empty_desc_ratio :: real
  shorts_ratio :: real
  dur_uniformity :: real

text \<open>
  The sentences of \<open>explanation\<close>, in the order of lines 244 to 253: duplicate
  descriptions detected; many videos have empty descriptions; mostly shorts content;
  durations too uniform; no reused-content signals detected.
\<close>

datatype remark =
  DuplicateDescriptions | ManyEmptyDescriptions | MostlyShorts | DurationsTooUniform | NoSignals

text \<open>
  metadata\_originality\_analysis (lines 220 to 260). \<open>Counter(descs)[d]\<close> is
  \<open>count_list descs d\<close>. The three ratios and \<open>avg_dur\<close> are divisions of two integers.
  For \<open>std_dur\<close> the model takes \<open>sum\<close> as the additions from left to right, and the
  powers \<open>** 2\<close> and \<open>** 0.5\<close> as the correctly rounded square and square root (the last
  bit of these three depends on the version of CPython and on the platform). The
  divisor \<open>avg_dur + 1\<close> is at least 1. A literal such as \<open>0.2\<close> is the double nearest to
  it. The list \<open>titles\<close> of line 222 is not used by the function.
\<close>

definition squared_deviation :: "real \<Rightarrow> nat \<Rightarrow> real" where
  "squared_deviation avg_dur x = fmul (fsub (fl (real x)) avg_dur) (fsub (fl (real x)) avg_dur)"

definition raw_score :: "signals \<Rightarrow> real" where
  "raw_score sigs =
     fsub
       (fsub
         (fsub 100 (fmul 20 (fadd (desc_dup_ratio sigs) (fmul 0.5 (empty_desc_ratio sigs)))))
         (fmul 15 (shorts_ratio sigs)))
       (fmul 10 (fsub 1 (dur_uniformity sigs)))"

definition metadata_originality_analysis :: "video list \<Rightarrow> int \<times> remark list \<times> signals" where
  "metadata_originality_analysis videos_meta =
     (let N = length videos_meta;
          descs = map (\<lambda>v. strip (description v)) videos_meta;
          durations = map duration_seconds videos_meta;
          dup = fdiv (real (length (filter (\<lambda>d. d \<noteq> [] \<and> 1 < count_list descs d) descs)))
                     (real (max 1 N));
          empty = fdiv (real (length (filter (\<lambda>d. d = [] \<or> length d < 10) descs)))
                       (real (max 1 N));
          shorts = fdiv (real (length (filter (\<lambda>d. d \<le> SHORTS_MAX_SECONDS) durations)))
                        (real (max 1 N));
          avg_dur = fdiv (real (sum_list durations)) (real (max 1 N));
          std_dur = fl (sqrt (fdiv (foldl fadd 0 (map (squared_deviation avg_dur) durations))
                                   (fl (real (max 1 N)))));
          uniformity = fsub 1 (fdiv std_dur (fadd avg_dur 1));
          sigs = \<lparr>desc_dup_ratio = dup, empty_desc_ratio = empty, shorts_ratio = shorts,
                  dur_uniformity = uniformity\<rparr>;
          final_score = trunc (max 0 (min 100 (raw_score sigs)));
          found = (if fl 0.2 < dup then [DuplicateDescriptions] else [])
                @ (if fl 0.4 < empty then [ManyEmptyDescriptions] else [])
                @ (if fl 0.85 < shorts then [MostlyShorts] else [])
                @ (if uniformity < fl 0.3 then [DurationsTooUniform] else []);
          explanation = (if found = [] then [NoSignals] else found)
      in (final_score, explanation, sigs))"

section \<open>The statistics of analyze\_channel\_full (app.py, lines 283 to 354)\<close>

text \<open>Lines 284 and 285: the short and the long videos.\<close>

definition shorts_of :: "video list \<Rightarrow> video list" where
  "shorts_of videos_meta = filter (\<lambda>v. duration_seconds v \<le> SHORTS_MAX_SECONDS) videos_meta"

definition longs_of :: "video list \<Rightarrow> video list" where
  "longs_of videos_meta = filter (\<lambda>v. SHORTS_MAX_SECONDS < duration_seconds v) videos_meta"

text \<open>
  A \<open>datetime\<close> is naive or aware; the integer is its time in microseconds, for an aware
  one the instant in UTC. \<open>datetime.fromisoformat\<close> belongs to the standard library and
  is a parameter \<open>fromiso\<close>: \<open>None\<close> where it raises ValueError. Comparing a naive
  \<open>datetime\<close> with the aware \<open>cut\<close> raises TypeError, outside the \<open>try\<close> of line 311.
\<close>

datatype datetime = Naive int | Aware int

type_synonym iso_parser = "string \<Rightarrow> datetime option"

text \<open>Line 312 with its \<open>try\<close>: \<open>None\<close> when the \<open>except\<close> branch continues the loop.\<close>

definition parse_published :: "iso_parser \<Rightarrow> video \<Rightarrow> datetime option" where
  "parse_published fromiso v =
     (case publishedAt v of None \<Rightarrow> None | Some p \<Rightarrow> fromiso (replace p ''Z'' ''+00:00''))"

text \<open>Line 306: \<open>cut\<close>, for the clock reading \<open>now\<close> (an aware \<open>datetime\<close>).\<close>

definition cutoff :: "int \<Rightarrow> int" where
  "cutoff now = now - int RECENT_DAYS * 86400 * 1000000"

text \<open>
  Lines 310 to 320: the loop that fills \<open>shorts_30\<close> and \<open>longs_30\<close>; \<open>cut_at\<close> is the
  time of \<open>cut\<close>.
\<close>

fun recent_loop ::
  "iso_parser \<Rightarrow> int \<Rightarrow> video list \<Rightarrow> video list \<Rightarrow> video list \<Rightarrow> py_error + (video list \<times> video list)" where
  "recent_loop fromiso cut_at [] shorts_30 longs_30 = Inr (shorts_30, longs_30)"
| "recent_loop fromiso cut_at (v # vs) shorts_30 longs_30 =
     (case parse_published fromiso v of
        None \<Rightarrow> recent_loop fromiso cut_at vs shorts_30 longs_30
      | Some (Naive t) \<Rightarrow> Inl TypeError
      | Some (Aware t) \<Rightarrow>
          if cut_at \<le> t then
            (if duration_seconds v \<le> SHORTS_MAX_SECONDS
             then recent_loop fromiso cut_at vs (shorts_30 @ [v]) longs_30
             else recent_loop fromiso cut_at vs shorts_30 (longs_30 @ [v]))
          else recent_loop fromiso cut_at vs shorts_30 longs_30)"

text \<open>
  The two outcomes of lines 311 to 316 for one video that matter to the loop: the
  comparison raises TypeError (\<open>compares_naive\<close>), or the video is appended to one of the
  two lists (\<open>is_recent\<close>).
\<close>

definition compares_naive :: "iso_parser \<Rightarrow> video \<Rightarrow> bool" where
  "compares_naive fromiso v =
     (case parse_published fromiso v of Some (Naive t) \<Rightarrow> True | _ \<Rightarrow> False)"

definition is_recent :: "iso_parser \<Rightarrow> int \<Rightarrow> video \<Rightarrow> bool" where
  "is_recent fromiso cut_at v =
     (case parse_published fromiso v of Some (Aware t) \<Rightarrow> cut_at \<le> t | _ \<Rightarrow> False)"

text \<open>
  Lines 329 to 336: the average duration of a list and its text. For a float \<open>a \<ge> 0\<close>,
  \<open>a // 60\<close> is \<open>\<lfloor>a / 60\<rfloor>\<close> and \<open>a % 60\<close> is \<open>a - 60 * \<lfloor>a / 60\<rfloor>\<close>, both exact.
\<close>

definition avg_duration :: "video list \<Rightarrow> real" where
  "avg_duration lst =
     (if lst \<noteq> [] then fdiv (real (sum_list (map duration_seconds lst))) (real (length lst))
      else 0)"

definition avg_human :: "real \<Rightarrow> string" where
  "avg_human a =
     (if a \<noteq> 0
      then str_int (trunc (of_int \<lfloor>a / 60\<rfloor>)) @ ''m '' @ str_int (trunc (a - 60 * of_int \<lfloor>a / 60\<rfloor>)) @ ''s''
      else ''N/A'')"

text \<open>Lines 339 to 351: the upload frequency of a count in the window.\<close>

definition freq :: "nat \<Rightarrow> string" where
  "freq count =
     (if count = 0 then ''Rarely uploads''
      else let per_week = fmul (fdiv (real count) (real RECENT_DAYS)) 7 in
        if per_week < 1 then ''1 upload every '' @ str_int (trunc (fdiv 7 per_week)) @ '' days''
        else fmt_round1 per_week @ '' uploads/week'')"

section \<open>The YouTube service\<close>

text \<open>
  The dictionary \<open>fetch_channel_basic\<close> returns (lines 139 to 145), and one item of a
  \<open>videos().list\<close> response as \<open>fetch_videos_metadata\<close> reads it (lines 199 to 210):
  \<open>raw_description\<close> is \<open>sn.get("description", "")\<close>, \<open>raw_duration\<close> is
  \<open>cd.get("duration", "")\<close> and \<open>raw_viewCount\<close> is \<open>int(st.get("viewCount", 0))\<close>.
\<close>

record channel =
  ch_channel_id :: string
  ch_title :: "string option"
  ch_profile_pic :: "string option"
  ch_subscribers :: int
  ch_uploads_playlist :: "string option"

record raw_video =
  raw_id :: "string option"
  raw_title :: string
  raw_description :: "string option"
  raw_publishedAt :: "string option"
  raw_viewCount :: int
  raw_duration :: string

text \<open>
  The service object \<open>youtube\<close> is the remote collaborator. Each field is what
  \<open>execute()\<close> answers to one request, \<open>Inl\<close> when it raises:
  \<^item> \<open>search_list q\<close>: the \<open>channelId\<close> of every item of the channel search for \<open>q\<close>;
  \<^item> \<open>channels_list cid\<close>: the items of the channel lookup, each read as lines 131 to 145 do;
  \<^item> \<open>playlist_items_list playlist page\<close>: the \<open>videoId\<close> of every item of one page and
    the \<open>nextPageToken\<close>;
  \<^item> \<open>videos_list batch\<close>: the items of the lookup of one batch of video ids.
  A \<open>call\<close> records one request sent to the service.
\<close>

record youtube =
  search_list :: "string \<Rightarrow> py_error + string list"
  channels_list :: "string \<Rightarrow> py_error + channel list"
  playlist_items_list :: "string \<Rightarrow> string option \<Rightarrow> py_error + (string option list \<times> string option)"
  videos_list :: "string list \<Rightarrow> py_error + raw_video list"

datatype call =
  Search string | Channels string | PlaylistItems string "string option" | Videos "string list"

text \<open>The truth value of a string or \<open>None\<close>: false for \<open>None\<close> and for the empty string.\<close>

definition truthy :: "string option \<Rightarrow> bool" where
  "truthy x = (case x of None \<Rightarrow> False | Some s \<Rightarrow> s \<noteq> [])"

text \<open>\<open>a or b\<close>.\<close>

definition or_else :: "string option \<Rightarrow> string option \<Rightarrow> string option" where
  "or_else a b = (if truthy a then a else b)"

text \<open>
  fetch\_channel\_basic (lines 121 to 145): one request, and the first item with the
  \<open>channel_id\<close> that was asked for.
\<close>

definition fetch_channel_basic :: "youtube \<Rightarrow> string \<Rightarrow> call list \<times> (py_error + channel option)" where
  "fetch_channel_basic yt cid =
     ([Channels cid],
      (case channels_list yt cid of
         Inl e \<Rightarrow> Inl e
       | Inr [] \<Rightarrow> Inr None
       | Inr (it # rest) \<Rightarrow> Inr (Some (it\<lparr>ch_channel_id := cid\<rparr>))))"

text \<open>
  resolve\_handle\_to\_channel\_id (lines 148 to 162). Everything is inside \<open>try\<close>: the
  AttributeError of \<open>None.strip()\<close> and a failure of the request both give \<open>None\<close>.
\<close>

definition resolve_handle_to_channel_id :: "youtube \<Rightarrow> string option \<Rightarrow> call list \<times> string option" where
  "resolve_handle_to_channel_id yt canonical_url_or_handle =
     (case canonical_url_or_handle of
        None \<Rightarrow> ([], None)
      | Some h \<Rightarrow>
          (case item_last (split (strip h) ''/'') of
             Inl e \<Rightarrow> ([], None)
           | Inr q \<Rightarrow>
               ([Search q],
                (case search_list yt q of
                   Inl e \<Rightarrow> None
                 | Inr [] \<Rightarrow> None
                 | Inr (cid # rest) \<Rightarrow> Some cid))))"

text \<open>
  fetch\_all\_video\_ids\_from\_playlist (lines 165 to 186). The \<open>while True\<close> loop ends when a
  page has no \<open>nextPageToken\<close>; the result is \<open>None\<close> when it never ends.
\<close>

partial_function (option) playlist_loop ::
  "youtube \<Rightarrow> string \<Rightarrow> string option \<Rightarrow> string list \<Rightarrow> call list
     \<Rightarrow> (call list \<times> (py_error + string list)) option" where
  "playlist_loop yt playlist next_page ids sent =
     (case playlist_items_list yt playlist next_page of
        Inl e \<Rightarrow> Some (sent @ [PlaylistItems playlist next_page], Inl e)
      | Inr (items, token) \<Rightarrow>
          (let ids' = ids @ concat (map (\<lambda>it. if truthy it then [or_empty it] else []) items);
               sent' = sent @ [PlaylistItems playlist next_page]
           in if truthy token then playlist_loop yt playlist token ids' sent'
              else Some (sent', Inr ids')))"

declare playlist_loop.simps [code]

definition fetch_all_video_ids_from_playlist ::
  "youtube \<Rightarrow> string \<Rightarrow> (call list \<times> (py_error + string list)) option" where
  "fetch_all_video_ids_from_playlist yt playlist = playlist_loop yt playlist None [] []"

text \<open>fetch\_videos\_metadata (lines 189 to 214): the items of one response, then the batches.\<close>

fun read_items :: "raw_video list \<Rightarrow> py_error + video list" where
  "read_items [] = Inr []"
| "read_items (v # vs) =
     (case parse_iso8601_duration_to_seconds (raw_duration v) of
        Inl e \<Rightarrow> Inl e
      | Inr dur_sec \<Rightarrow>
          (case read_items vs of
             Inl e \<Rightarrow> Inl e
           | Inr out \<Rightarrow>
               Inr (\<lparr>video_id = raw_id v, title = raw_title v,
                     description = or_empty (raw_description v),
                     publishedAt = raw_publishedAt v, views = raw_viewCount v,
                     duration_seconds = dur_sec\<rparr> # out)))"

function fetch_videos_metadata :: "youtube \<Rightarrow> string list \<Rightarrow> call list \<times> (py_error + video list)" where
  "fetch_videos_metadata yt ids =
     (if ids = [] then ([], Inr [])
      else
        (case bind_exc (videos_list yt (take BATCH_SIZE ids)) read_items of
           Inl e \<Rightarrow> ([Videos (take BATCH_SIZE ids)], Inl e)
         | Inr out \<Rightarrow>
             (case fetch_videos_metadata yt (drop BATCH_SIZE ids) of
                (sent, r) \<Rightarrow>
                  (Videos (take BATCH_SIZE ids) # sent, bind_exc r (\<lambda>rest. Inr (out @ rest))))))"
  by pat_completeness auto
termination
  by (relation "measure (\<lambda>(yt, ids). length ids)") (auto simp: BATCH_SIZE_def)

section \<open>analyze\_channel\_full and api\_analyze\<close>

text \<open>
  The report of lines 356 to 396. Three entries are left out: \<open>monetization\<close> (a constant
  text), \<open>last_uploaded_short\<close> and \<open>last_uploaded_video\<close> (texts of \<open>strftime\<close>, computed
  inside \<open>try\<close>), none of which can raise. \<open>channel_title\<close> is the entry \<open>title\<close>.
\<close>

record report =
  channel_id :: string
  channel_title :: "string option"
  profile_pic :: "string option"
  subscribers :: int
  subscribers_fmt :: string
  originality_score :: int
  originality_explanation :: "remark list"
  originality_signals :: signals
  shorts_count :: nat
  videos_count :: nat
  videos_scanned :: nat
  total_shorts_views_lifetime :: int
  total_long_views_lifetime :: int
  total_shorts_views_lifetime_fmt :: string
  total_long_views_lifetime_fmt :: string
  shorts_30d_count :: nat
  videos_30d_count :: nat
  total_shorts_views_30d :: int
  total_long_views_30d :: int
  total_shorts_views_30d_fmt :: string
  total_long_views_30d_fmt :: string
  shorts_frequency_text :: string
  videos_frequency_text :: string
  uploads_per_week_recent :: real
  avg_short_duration_human :: string
  avg_long_duration_human :: string

text \<open>Lines 283 to 396, for the channel \<open>ch\<close>, the clock reading \<open>now\<close> and the videos.\<close>

definition assemble_report :: "channel \<Rightarrow> iso_parser \<Rightarrow> int \<Rightarrow> video list \<Rightarrow> py_error + report" where
  "assemble_report ch fromiso now videos_meta =
     (let shorts = shorts_of videos_meta;
          longs = longs_of videos_meta
      in case recent_loop fromiso (cutoff now) videos_meta [] [] of
           Inl e \<Rightarrow> Inl e
         | Inr (shorts_30, longs_30) \<Rightarrow>
             (case metadata_originality_analysis videos_meta of
                (score, explanation, sigs) \<Rightarrow>
                  Inr \<lparr>channel_id = ch_channel_id ch,
                       channel_title = ch_title ch,
                       profile_pic = ch_profile_pic ch,
                       subscribers = ch_subscribers ch,
                       subscribers_fmt = short_number (ch_subscribers ch),
                       originality_score = score,
                       originality_explanation = explanation,
                       originality_signals = sigs,
                       shorts_count = length shorts,
                       videos_count = length longs,
                       videos_scanned = length videos_meta,
                       total_shorts_views_lifetime = sum_list (map views shorts),
                       total_long_views_lifetime = sum_list (map views longs),
                       total_shorts_views_lifetime_fmt = short_number (sum_list (map views shorts)),
                       total_long_views_lifetime_fmt = short_number (sum_list (map views longs)),
                       shorts_30d_count = length shorts_30,
                       videos_30d_count = length longs_30,
                       total_shorts_views_30d = sum_list (map views shorts_30),
                       total_long_views_30d = sum_list (map views longs_30),
                       total_shorts_views_30d_fmt = short_number (sum_list (map views shorts_30)),
                       total_long_views_30d_fmt = short_number (sum_list (map views longs_30)),
                       shorts_frequency_text = freq (length shorts_30),
                       videos_frequency_text = freq (length longs_30),
                       uploads_per_week_recent =
                         round2 (fmul (fdiv (real (length shorts_30 + length longs_30))
                                            (real RECENT_DAYS)) 7),
                       avg_short_duration_human = avg_human (avg_duration shorts),
                       avg_long_duration_human = avg_human (avg_duration longs)\<rparr>))"

text \<open>
  What \<open>analyze_channel_full\<close> returns: the dictionary \<open>{"error": message}\<close> or a report.
\<close>

datatype outcome = ErrorReport string | Report report

text \<open>
  analyze\_channel\_full (lines 266 to 396) returns the requests it sent, in order, and its
  result: \<open>Inl\<close> an exception that leaves the function, \<open>Inr\<close> what it returns. The
  service object of line 267 is the parameter \<open>yt\<close>; the input is a string or \<open>None\<close>
  (a JSON \<open>null\<close> of the request).
\<close>

definition analyze_videos ::
  "youtube \<Rightarrow> iso_parser \<Rightarrow> int \<Rightarrow> channel \<Rightarrow> (call list \<times> (py_error + outcome)) option" where
  "analyze_videos yt fromiso now ch =
     (case (if truthy (ch_uploads_playlist ch)
            then fetch_all_video_ids_from_playlist yt (or_empty (ch_uploads_playlist ch))
            else Some ([], Inr [])) of
        None \<Rightarrow> None
      | Some (sent3, Inl e) \<Rightarrow> Some (sent3, Inl e)
      | Some (sent3, Inr video_ids) \<Rightarrow>
          (case fetch_videos_metadata yt video_ids of
             (sent4, Inl e) \<Rightarrow> Some (sent3 @ sent4, Inl e)
           | (sent4, Inr videos_meta) \<Rightarrow>
               Some (sent3 @ sent4,
                     bind_exc (assemble_report ch fromiso now videos_meta) (\<lambda>r. Inr (Report r)))))"

definition analyze_channel_full ::
  "youtube \<Rightarrow> iso_parser \<Rightarrow> int \<Rightarrow> string option \<Rightarrow> (call list \<times> (py_error + outcome)) option" where
  "analyze_channel_full yt fromiso now channel_input =
     (case extract_channel_from_input channel_input of
        Inl e \<Rightarrow> Some ([], Inl e)
      | Inr (cid0, canonical) \<Rightarrow>
          (case (if truthy cid0 then ([], cid0)
                 else resolve_handle_to_channel_id yt (or_else canonical channel_input)) of
             (sent1, cid) \<Rightarrow>
               if \<not> truthy cid then Some (sent1, Inr (ErrorReport ''Could not resolve channel ID''))
               else
                 (case fetch_channel_basic yt (or_empty cid) of
                    (sent2, Inl e) \<Rightarrow> Some (sent1 @ sent2, Inl e)
                  | (sent2, Inr None) \<Rightarrow> Some (sent1 @ sent2, Inr (ErrorReport ''Channel not found''))
                  | (sent2, Inr (Some ch)) \<Rightarrow>
                      (case analyze_videos yt fromiso now ch of
                         None \<Rightarrow> None
                       | Some (sent3, r) \<Rightarrow> Some (sent1 @ sent2 @ sent3, r)))))"

text \<open>
  api\_analyze (lines 441 to 461), for the list \<open>inputs\<close> of the request; \<open>clock i\<close> is the
  clock reading during the analysis of the input at position \<open>i\<close>. The loop of lines 450
  to 455 carries \<open>results\<close> and \<open>errors\<close>; an exception leaves it for the \<open>except\<close> branch,
  which answers "Server error" with status 500.
\<close>

type_synonym error_entry = "string option \<times> string"

fun analyze_loop ::
  "youtube \<Rightarrow> iso_parser \<Rightarrow> (nat \<Rightarrow> int) \<Rightarrow> nat \<Rightarrow> string option list \<Rightarrow> report list
     \<Rightarrow> error_entry list \<Rightarrow> call list
     \<Rightarrow> (call list \<times> (py_error + report list \<times> error_entry list)) option" where
  "analyze_loop yt fromiso clock i [] results errors sent = Some (sent, Inr (results, errors))"
| "analyze_loop yt fromiso clock i (c # cs) results errors sent =
     (case analyze_channel_full yt fromiso (clock i) c of
        None \<Rightarrow> None
      | Some (l, Inl e) \<Rightarrow> Some (sent @ l, Inl e)
      | Some (l, Inr (ErrorReport msg)) \<Rightarrow>
          analyze_loop yt fromiso clock (Suc i) cs results (errors @ [(c, msg)]) (sent @ l)
      | Some (l, Inr (Report r)) \<Rightarrow>
          analyze_loop yt fromiso clock (Suc i) cs (results @ [r]) errors (sent @ l))"

datatype response = Success "report list" "error_entry list" | ServerError

definition api_analyze ::
  "youtube \<Rightarrow> iso_parser \<Rightarrow> (nat \<Rightarrow> int) \<Rightarrow> string option list \<Rightarrow> (call list \<times> response) option" where
  "api_analyze yt fromiso clock inputs =
     (case analyze_loop yt fromiso clock 0 (take MAX_CHANNELS inputs) [] [] [] of
        None \<Rightarrow> None
      | Some (sent, Inl e) \<Rightarrow> Some (sent, ServerError)
      | Some (sent, Inr (results, errors)) \<Rightarrow> Some (sent, Success results errors))"

text \<open>
  The entries the specification expects of a batch \<open>cs\<close> whose first input is analysed
  at position \<open>i\<close>: the report of every analysis that returns one, the pair of the input
  and the message of every analysis that returns an error, each taken from the analysis
  of that input alone. \<open>all_return\<close> says that every analysis returns, with a report or
  with an error.
\<close>

fun expected_results ::
  "youtube \<Rightarrow> iso_parser \<Rightarrow> (nat \<Rightarrow> int) \<Rightarrow> nat \<Rightarrow> string option list \<Rightarrow> report list" where
  "expected_results yt fromiso clock i [] = []"
| "expected_results yt fromiso clock i (c # cs) =
     (case analyze_channel_full yt fromiso (clock i) c of
        Some (l, Inr (Report r)) \<Rightarrow> [r]
      | _ \<Rightarrow> [])
     @ expected_results yt fromiso clock (Suc i) cs"

fun expected_errors ::
  "youtube \<Rightarrow> iso_parser \<Rightarrow> (nat \<Rightarrow> int) \<Rightarrow> nat \<Rightarrow> string option list \<Rightarrow> error_entry list" where
  "expected_errors yt fromiso clock i [] = []"
| "expected_errors yt fromiso clock i (c # cs) =
     (case analyze_channel_full yt fromiso (clock i) c of
        Some (l, Inr (ErrorReport msg)) \<Rightarrow> [(c, msg)]
      | _ \<Rightarrow> [])
     @ expected_errors yt fromiso clock (Suc i) cs"

fun all_return ::
  "youtube \<Rightarrow> iso_parser \<Rightarrow> (nat \<Rightarrow> int) \<Rightarrow> nat \<Rightarrow> string option list \<Rightarrow> bool" where
  "all_return yt fromiso clock i [] = True"
| "all_return yt fromiso clock i (c # cs) =
     ((case analyze_channel_full yt fromiso (clock i) c of
         Some (l, Inr out) \<Rightarrow> True
       | _ \<Rightarrow> False)
      \<and> all_return yt fromiso clock (Suc i) cs)"

section \<open>Sample data\<close>

text \<open>
  A channel without an uploads playlist; a service whose search finds the channel
  \<open>UCx\<close> for every query and knows that channel alone; a service that finds nothing;
  two services whose search finds
  \<open>A\<close> for \<open>UCvalid\<close> and \<open>B\<close> otherwise, the first with no channel \<open>B\<close> and the
  second with a channel lookup that raises for \<open>B\<close>; a parser of two texts, the second
  one second before the first; a video of length zero; and a video published at a given
  time.
\<close>

definition sample_channel :: channel where
  "sample_channel =
     \<lparr>ch_channel_id = ''UCx'', ch_title = Some ''Sample'', ch_profile_pic = None,
      ch_subscribers = 1500, ch_uploads_playlist = None\<rparr>"

definition service_found :: youtube where
  "service_found =
     \<lparr>search_list = (\<lambda>q. Inr [''UCx'']),
      channels_list = (\<lambda>cid. if cid = ''UCx'' then Inr [sample_channel] else Inr []),
      playlist_items_list = (\<lambda>playlist page. Inr ([], None)),
      videos_list = (\<lambda>batch. Inr [])\<rparr>"

definition service_empty :: youtube where
  "service_empty =
     \<lparr>search_list = (\<lambda>q. Inr []),
      channels_list = (\<lambda>cid. Inr []),
      playlist_items_list = (\<lambda>playlist page. Inr ([], None)),
      videos_list = (\<lambda>batch. Inr [])\<rparr>"

definition service_absent :: youtube where
  "service_absent =
     \<lparr>search_list = (\<lambda>q. if q = ''UCvalid'' then Inr [''A''] else Inr [''B'']),
      channels_list = (\<lambda>cid. if cid = ''A'' then Inr [sample_channel] else Inr []),
      playlist_items_list = (\<lambda>playlist page. Inr ([], None)),
      videos_list = (\<lambda>batch. Inr [])\<rparr>"

definition service_broken :: youtube where
  "service_broken =
     \<lparr>search_list = (\<lambda>q. if q = ''UCvalid'' then Inr [''A''] else Inr [''B'']),
      channels_list = (\<lambda>cid. if cid = ''A'' then Inr [sample_channel] else Inl HttpError),
      playlist_items_list = (\<lambda>playlist page. Inr ([], None)),
      videos_list = (\<lambda>batch. Inr [])\<rparr>"

definition sample_fromiso :: iso_parser where
  "sample_fromiso s =
     (if s = ''1970-01-31T00:00:00+00:00'' then Some (Aware 2592000000000)
      else if s = ''1970-01-30T23:59:59+00:00'' then Some (Aware 2591999000000)
      else None)"

definition video0 :: video where
  "video0 =
     \<lparr>video_id = Some ''v0'', title = ''Live'', description = [], publishedAt = None,
      views = 7, duration_seconds = 0\<rparr>"

definition video_at :: "string \<Rightarrow> nat \<Rightarrow> video" where
  "video_at published seconds =
     \<lparr>video_id = Some ''v'', title = ''Video'', description = [],
      publishedAt = Some published, views = 1, duration_seconds = seconds\<rparr>"

section \<open>Facts about the string operations\<close>

declare fetch_videos_metadata.simps [simp del]

lemma isdecimal_isdigit: "isdecimal c \<Longrightarrow> isdigit c"
  by (simp add: isdecimal_def isdigit_def Let_def)

lemma int_of_digits_decimal:
  "num \<noteq> [] \<Longrightarrow> list_all isdecimal num \<Longrightarrow> length num \<le> INT_MAX_STR_DIGITS
     \<Longrightarrow> int_of_digits num = Inr (decimal_value num)"
  by (simp add: int_of_digits_def)

lemma length_replace_from: "length (replace_from old [] s) \<le> length s"
proof (induction old "[] :: string" s rule: replace_from.induct)
  case (1 old)
  then show ?case by simp
next
  case (2 old c cs)
  show ?case
  proof (cases "old \<noteq> [] \<and> startswith (c # cs) old")
    case True
    with 2(1) [OF True] show ?thesis by simp
  next
    case False
    with 2(2) [OF False] show ?thesis by auto
  qed
qed

lemma replace_from_absent: "old \<noteq> [] \<Longrightarrow> hd old \<notin> set s \<Longrightarrow> replace_from old new s = s"
proof (induction s)
  case Nil
  then show ?case by simp
next
  case (Cons c cs)
  then have "\<not> startswith (c # cs) old" by (cases old) auto
  with Cons show ?case by simp
qed

lemma set_replace_from: "set (replace_from old new s) \<subseteq> set new \<union> set s"
proof (induction old new s rule: replace_from.induct)
  case (1 old new)
  then show ?case by simp
next
  case (2 old new c cs)
  show ?case
  proof (cases "old \<noteq> [] \<and> startswith (c # cs) old")
    case True
    have "set (drop (length old) (c # cs)) \<subseteq> set (c # cs)" by (rule set_drop_subset)
    with 2(1) [OF True] True show ?thesis by auto
  next
    case False
    with 2(2) [OF False] show ?thesis by auto
  qed
qed

lemma split_from_nonempty: "split_from sep cur s \<noteq> []"
  by (induction sep cur s rule: split_from.induct) auto

lemma split_from_two_pieces:
  "sep \<noteq> [] \<Longrightarrow> contains sep s \<Longrightarrow> 2 \<le> length (split_from sep cur s)"
proof (induction sep cur s rule: split_from.induct)
  case (1 sep cur)
  then show ?case by simp
next
  case (2 sep cur c cs)
  show ?case
  proof (cases "startswith (c # cs) sep")
    case True
    have "1 \<le> length (split_from sep [] (drop (length sep) (c # cs)))"
      using split_from_nonempty [of sep "[]" "drop (length sep) (c # cs)"]
      by (cases "split_from sep [] (drop (length sep) (c # cs))") simp_all
    with True 2(3) show ?thesis by simp
  next
    case False
    with 2(4) have "contains sep cs" by simp
    with False 2(2) 2(3) show ?thesis by simp
  qed
qed

lemma item_split_first: "\<exists>piece. item (split s sep) 0 = Inr piece"
  using split_from_nonempty [of sep "[]" s] by (simp add: item_def split_def)

lemma item_split_second:
  "sep \<noteq> [] \<Longrightarrow> contains sep s \<Longrightarrow> \<exists>piece. item (split s sep) 1 = Inr piece"
  using split_from_two_pieces [of sep s "[]"] by (simp add: item_def split_def)

section \<open>Facts about the rounding of floats\<close>

declare bit_length.simps [simp del]

lemmas fl_evals = fl_def fl_pos_def ulp_def binary_exponent_def round_half_even_def
  fadd_def fsub_def fmul_def fdiv_def bit_length.simps

lemma bit_length_pos: "0 < n \<Longrightarrow> 0 < bit_length n"
  by (subst bit_length.simps) simp

lemma bit_length_lower: "0 < n \<Longrightarrow> 2 ^ (bit_length n - 1) \<le> n"
proof (induction n rule: bit_length.induct)
  case (1 n)
  show ?case
  proof (cases "n div 2 = 0")
    case True
    with 1(2) have "n = 1" by (simp add: div_eq_0_iff)
    then show ?thesis by (simp add: bit_length.simps)
  next
    case False
    then have pos: "0 < n div 2" by simp
    from 1(1) [OF _ pos] 1(2) have ih: "2 ^ (bit_length (n div 2) - 1) \<le> n div 2" by simp
    have "0 < bit_length (n div 2)" using pos by (rule bit_length_pos)
    then have "bit_length n - 1 = Suc (bit_length (n div 2) - 1)"
      using 1(2) by (subst bit_length.simps) simp
    then have "(2::nat) ^ (bit_length n - 1) = 2 * 2 ^ (bit_length (n div 2) - 1)" by simp
    also have "\<dots> \<le> 2 * (n div 2)" using ih by simp
    also have "\<dots> \<le> n" by simp
    finally show ?thesis .
  qed
qed

lemma bit_length_upper: "n < 2 ^ bit_length n"
proof (induction n rule: bit_length.induct)
  case (1 n)
  show ?case
  proof (cases "n = 0")
    case True
    then show ?thesis by simp
  next
    case False
    from 1 [OF False] have "n div 2 < 2 ^ bit_length (n div 2)" .
    then have "n < 2 * 2 ^ bit_length (n div 2)" by linarith
    also have "\<dots> = 2 ^ bit_length n"
      using False by (subst (2) bit_length.simps) simp
    finally show ?thesis .
  qed
qed

lemma round_half_even_bounds:
  "\<lfloor>x\<rfloor> \<le> round_half_even x" "round_half_even x \<le> \<lfloor>x\<rfloor> + 1"
  by (simp_all add: round_half_even_def Let_def)

lemma round_half_even_mono:
  assumes "a \<le> b"
  shows "round_half_even a \<le> round_half_even b"
proof (cases "\<lfloor>a\<rfloor> = \<lfloor>b\<rfloor>")
  case True
  with assms have "a - of_int \<lfloor>a\<rfloor> \<le> b - of_int \<lfloor>b\<rfloor>" by simp
  with True show ?thesis by (auto simp: round_half_even_def Let_def)
next
  case False
  with assms have "\<lfloor>a\<rfloor> < \<lfloor>b\<rfloor>" by (simp add: floor_mono order.strict_iff_order)
  with round_half_even_bounds(2) [of a] round_half_even_bounds(1) [of b] show ?thesis
    by linarith
qed

lemma ulp_pos: "0 < ulp x"
  by (simp add: ulp_def)

lemma exponent_bounds:
  assumes "0 < x"
  shows "power_int 2 (binary_exponent x) \<le> x" and "x < power_int 2 (binary_exponent x + 1)"
proof -
  have "power_int 2 (binary_exponent x) \<le> x \<and> x < power_int 2 (binary_exponent x + 1)"
  proof (cases "1 \<le> x")
    case True
    define m where "m = nat \<lfloor>x\<rfloor>"
    have m: "0 < m" "real m \<le> x" "x < real m + 1"
      using True by (simp_all add: m_def)
    have e: "binary_exponent x = int (bit_length m - 1)"
      using True bit_length_pos [OF m(1)] by (simp add: binary_exponent_def m_def)
    have "power_int 2 (binary_exponent x) = real (2 ^ (bit_length m - 1))" by (simp add: e)
    also have "\<dots> \<le> real m"
      using bit_length_lower [OF m(1)] by (rule of_nat_mono)
    also have "\<dots> \<le> x" by (rule m(2))
    finally have lower: "power_int 2 (binary_exponent x) \<le> x" .
    have "m + 1 \<le> 2 ^ bit_length m" using bit_length_upper [of m] by simp
    then have "real (m + 1) \<le> real (2 ^ bit_length m)" by (rule of_nat_mono)
    then have "real m + 1 \<le> 2 ^ bit_length m" by simp
    with m(3) have "x < 2 ^ bit_length m" by linarith
    moreover have "binary_exponent x + 1 = int (bit_length m)"
      using bit_length_pos [OF m(1)] by (simp add: e)
    ultimately have "x < power_int 2 (binary_exponent x + 1)" by simp
    with lower show ?thesis by simp
  next
    case False
    with assms have x: "0 < x" "x < 1" by simp_all
    define c where "c = nat \<lceil>1 / x\<rceil>"
    define k where "k = bit_length (c - 1)"
    have "1 < 1 / x" using x by simp
    then have "1 < \<lceil>1 / x\<rceil>" by linarith
    then have c: "2 \<le> c" unfolding c_def by linarith
    then have cpos: "0 < c - 1" by simp
    have e: "binary_exponent x = - int k"
      using x by (simp add: binary_exponent_def k_def c_def)
    have kpos: "0 < k" unfolding k_def using cpos by (rule bit_length_pos)
    have "2 ^ (k - 1) \<le> c - 1" unfolding k_def using cpos by (rule bit_length_lower)
    then have "real (2 ^ (k - 1)) \<le> real (c - 1)" by (rule of_nat_mono)
    also have "real (c - 1) = of_int \<lceil>1 / x\<rceil> - 1" using c by (simp add: c_def)
    also have "\<dots> < 1 / x" by linarith
    finally have "2 ^ (k - 1) < 1 / x" by simp
    then have "x * 2 ^ (k - 1) < 1" using x(1) by (simp add: field_simps)
    then have "x < 1 / 2 ^ (k - 1)" by (simp add: field_simps)
    also have "1 / 2 ^ (k - 1) = power_int (2::real) (- int (k - 1))"
      by (simp add: power_int_minus field_simps)
    also have "- int (k - 1) = binary_exponent x + 1" using kpos by (simp add: e)
    finally have upper: "x < power_int 2 (binary_exponent x + 1)" .
    have "c - 1 < 2 ^ k" unfolding k_def by (rule bit_length_upper)
    then have "c \<le> 2 ^ k" by simp
    then have "real c \<le> real (2 ^ k)" by (rule of_nat_mono)
    then have "real c \<le> 2 ^ k" by simp
    moreover have "real c = of_int \<lceil>1 / x\<rceil>" using c by (simp add: c_def)
    moreover have "1 / x \<le> of_int \<lceil>1 / x\<rceil>" by linarith
    ultimately have "1 / x \<le> 2 ^ k" by linarith
    then have "1 \<le> x * 2 ^ k" using x(1) by (simp add: field_simps)
    then have "1 / 2 ^ k \<le> x" by (simp add: field_simps)
    moreover have "1 / 2 ^ k = power_int (2::real) (- int k)"
      by (simp add: power_int_minus field_simps)
    ultimately have "power_int 2 (binary_exponent x) \<le> x" by (simp add: e)
    with upper show ?thesis by simp
  qed
  then show "power_int 2 (binary_exponent x) \<le> x"
    and "x < power_int 2 (binary_exponent x + 1)" by simp_all
qed

lemma exponent_mono:
  assumes "0 < x" "x \<le> y"
  shows "binary_exponent x \<le> binary_exponent y"
proof (rule ccontr)
  assume "\<not> binary_exponent x \<le> binary_exponent y"
  then have "binary_exponent y + 1 \<le> binary_exponent x" by simp
  then have "power_int (2::real) (binary_exponent y + 1) \<le> power_int 2 (binary_exponent x)"
    by (intro power_int_increasing) simp_all
  also have "\<dots> \<le> x" using assms(1) by (rule exponent_bounds)
  also have "x \<le> y" by fact
  finally show False using exponent_bounds(2) [of y] assms by simp
qed

lemma ulp_times: "power_int 2 (binary_exponent x) = 2 ^ 52 * ulp x"
  "power_int 2 (binary_exponent x + 1) = 2 ^ 53 * ulp x"
  using power_int_add [of "2::real" 52 "binary_exponent x - 52"]
    power_int_add [of "2::real" 53 "binary_exponent x - 52"]
  by (simp_all add: ulp_def add.commute)

lemma fl_pos_bounds:
  assumes "0 < x"
  shows "power_int 2 (binary_exponent x) \<le> fl_pos x"
    and "fl_pos x \<le> power_int 2 (binary_exponent x + 1)"
proof -
  have "2 ^ 52 \<le> x / ulp x" "x / ulp x < 2 ^ 53"
    using exponent_bounds [OF assms] ulp_pos [of x] unfolding ulp_times
    by (simp_all add: pos_le_divide_eq pos_divide_less_eq)
  then have "2 ^ 52 \<le> \<lfloor>x / ulp x\<rfloor>" "\<lfloor>x / ulp x\<rfloor> < 2 ^ 53"
    by (simp_all add: le_floor_iff floor_less_iff)
  with round_half_even_bounds [of "x / ulp x"]
  have "2 ^ 52 \<le> round_half_even (x / ulp x)" "round_half_even (x / ulp x) \<le> 2 ^ 53"
    by linarith+
  then have "(of_int (2 ^ 52) :: real) \<le> of_int (round_half_even (x / ulp x))"
    "(of_int (round_half_even (x / ulp x)) :: real) \<le> of_int (2 ^ 53)"
    by (simp_all only: of_int_le_iff)
  then show "power_int 2 (binary_exponent x) \<le> fl_pos x"
    and "fl_pos x \<le> power_int 2 (binary_exponent x + 1)"
    using ulp_pos [of x] unfolding ulp_times fl_pos_def by simp_all
qed

lemma fl_pos_mono:
  assumes "0 < x" "x \<le> y"
  shows "fl_pos x \<le> fl_pos y"
proof (cases "binary_exponent x = binary_exponent y")
  case True
  then have u: "ulp x = ulp y" by (simp add: ulp_def)
  have "x / ulp y \<le> y / ulp y"
    using assms(2) ulp_pos [of y] by (simp add: divide_right_mono)
  then have "round_half_even (x / ulp y) \<le> round_half_even (y / ulp y)"
    by (rule round_half_even_mono)
  then have "(of_int (round_half_even (x / ulp y)) :: real) \<le> of_int (round_half_even (y / ulp y))"
    by (simp only: of_int_le_iff)
  then show ?thesis
    using ulp_pos [of y] by (simp add: fl_pos_def u)
next
  case False
  with exponent_mono [OF assms] have "binary_exponent x + 1 \<le> binary_exponent y" by simp
  then have "power_int (2::real) (binary_exponent x + 1) \<le> power_int 2 (binary_exponent y)"
    by (intro power_int_increasing) simp_all
  with fl_pos_bounds(2) [OF assms(1)] fl_pos_bounds(1) [of y] assms show ?thesis by simp
qed

lemma fl_positive: "0 < x \<Longrightarrow> 0 < fl x"
proof -
  assume x: "0 < x"
  have "0 < power_int (2::real) (binary_exponent x)" by simp
  also have "\<dots> \<le> fl_pos x" using x by (rule fl_pos_bounds(1))
  finally show ?thesis using x by (simp add: fl_def)
qed

lemma fl_nonneg: "0 \<le> x \<Longrightarrow> 0 \<le> fl x"
  using fl_positive [of x] by (cases "x = 0") (simp_all add: fl_def order.strict_iff_order)

lemma fl_mono:
  assumes "0 \<le> x" "x \<le> y"
  shows "fl x \<le> fl y"
proof (cases "x = 0")
  case True
  with assms fl_nonneg [of y] show ?thesis by (simp add: fl_def)
next
  case False
  with assms have "0 < x" "0 < y" by simp_all
  with fl_pos_mono [of x y] assms show ?thesis by (simp add: fl_def)
qed

lemma fl_one: "fl 1 = 1"
  by (simp add: fl_evals)

lemma fl_le_one: "0 \<le> x \<Longrightarrow> x \<le> 1 \<Longrightarrow> fl x \<le> 1"
  using fl_mono [of x 1] by (simp add: fl_one)

section \<open>The originality engine\<close>

lemma ratio_bounds:
  assumes "k \<le> n"
  shows "0 \<le> fdiv (real k) (real (max 1 n))" and "fdiv (real k) (real (max 1 n)) \<le> 1"
proof -
  have "real k \<le> real (max 1 n)" using assms by simp
  moreover have "0 < real (max 1 n)" by simp
  ultimately have q: "0 \<le> real k / real (max 1 n)" "real k / real (max 1 n) \<le> 1"
    by (simp_all add: divide_le_eq_1)
  show "0 \<le> fdiv (real k) (real (max 1 n))"
    unfolding fdiv_def using q(1) by (rule fl_nonneg)
  show "fdiv (real k) (real (max 1 n)) \<le> 1"
    unfolding fdiv_def using q by (rule fl_le_one)
qed

lemma filter_ratio_bounds:
  "0 \<le> fdiv (real (length (filter P xs))) (real (max 1 (length xs)))"
  "fdiv (real (length (filter P xs))) (real (max 1 (length xs))) \<le> 1"
  using ratio_bounds [of "length (filter P xs)" "length xs"] by simp_all

lemma trunc_clamp_bounds: "0 \<le> trunc (max 0 (min 100 x)) \<and> trunc (max 0 (min 100 x)) \<le> 100"
proof -
  have "0 \<le> max 0 (min 100 x)" "max 0 (min 100 x) \<le> 100" by simp_all
  then show ?thesis by (simp add: trunc_def floor_le_iff)
qed

text \<open>The divisor of line 234 is not zero: the average is not negative.\<close>

lemma uniformity_divisor_positive: "0 \<le> avg_dur \<Longrightarrow> 0 < fadd avg_dur 1"
  unfolding fadd_def by (rule fl_positive) simp

text \<open>
  Claim C1. For every list of video records the originality score is an integer from 0
  to 100, the truncation of the float score 100 - 20 * (descDupRatio + 0.5 *
  emptyDescRatio) - 15 * shortsRatio - 10 * (1 - durationUniformity) clamped to
  [0, 100], and the three ratios lie in [0, 1].
\<close>

theorem originality_score_and_signals_bounded:
  "(case metadata_originality_analysis videos_meta of
      (score, explanation, sigs) \<Rightarrow>
        0 \<le> score \<and> score \<le> 100 \<and>
        score = trunc (max 0 (min 100 (raw_score sigs))) \<and>
        raw_score sigs =
          fsub (fsub (fsub 100 (fmul 20 (fadd (desc_dup_ratio sigs) (fmul 0.5 (empty_desc_ratio sigs)))))
                     (fmul 15 (shorts_ratio sigs)))
               (fmul 10 (fsub 1 (dur_uniformity sigs))) \<and>
        0 \<le> desc_dup_ratio sigs \<and> desc_dup_ratio sigs \<le> 1 \<and>
        0 \<le> empty_desc_ratio sigs \<and> empty_desc_ratio sigs \<le> 1 \<and>
        0 \<le> shorts_ratio sigs \<and> shorts_ratio sigs \<le> 1)"
proof -
  define descs where "descs = map (\<lambda>v. strip (description v)) videos_meta"
  define durations where "durations = map duration_seconds videos_meta"
  define n where "n = length videos_meta"
  define dup where
    "dup = fdiv (real (length (filter (\<lambda>d. d \<noteq> [] \<and> 1 < count_list descs d) descs)))
                (real (max 1 n))"
  define empty where
    "empty = fdiv (real (length (filter (\<lambda>d. d = [] \<or> length d < 10) descs))) (real (max 1 n))"
  define shorts where
    "shorts = fdiv (real (length (filter (\<lambda>d. d \<le> SHORTS_MAX_SECONDS) durations)))
                   (real (max 1 n))"
  have len: "length descs = n" "length durations = n"
    by (simp_all add: descs_def durations_def n_def)
  have result: "\<exists>explanation uniformity. metadata_originality_analysis videos_meta =
      (trunc (max 0 (min 100 (raw_score
         \<lparr>desc_dup_ratio = dup, empty_desc_ratio = empty, shorts_ratio = shorts,
          dur_uniformity = uniformity\<rparr>))), explanation,
       \<lparr>desc_dup_ratio = dup, empty_desc_ratio = empty, shorts_ratio = shorts,
        dur_uniformity = uniformity\<rparr>)"
    unfolding metadata_originality_analysis_def Let_def shorts_def empty_def dup_def n_def
      durations_def descs_def
    by blast
  have "0 \<le> dup" "dup \<le> 1"
    using filter_ratio_bounds [of "\<lambda>d. d \<noteq> [] \<and> 1 < count_list descs d" descs]
    by (simp_all add: dup_def len)
  moreover have "0 \<le> empty" "empty \<le> 1"
    using filter_ratio_bounds [of "\<lambda>d. d = [] \<or> length d < 10" descs]
    by (simp_all add: empty_def len)
  moreover have "0 \<le> shorts" "shorts \<le> 1"
    using filter_ratio_bounds [of "\<lambda>d. d \<le> SHORTS_MAX_SECONDS" durations]
    by (simp_all add: shorts_def len)
  ultimately show ?thesis
    using result trunc_clamp_bounds by (auto simp: raw_score_def)
qed

text \<open>
  Claim C3, amended. For the empty list of videos the three ratios are 0 by the
  denominator floor of 1, while durationUniformity is 1 - 0 / (0 + 1) = 1, not 0; the
  score is 100 and the only remark is that no signal was detected.
\<close>

theorem empty_video_list_signals:
  "metadata_originality_analysis [] =
     (100, [NoSignals],
      \<lparr>desc_dup_ratio = 0, empty_desc_ratio = 0, shorts_ratio = 0, dur_uniformity = 1\<rparr>)"
  unfolding metadata_originality_analysis_def Let_def raw_score_def
  by (simp add: trunc_def fl_evals)

text \<open>
  The claim C3 as stated fails: the duration uniformity of the empty list is not 0.
\<close>

theorem empty_video_list_uniformity_not_zero:
  "dur_uniformity (snd (snd (metadata_originality_analysis []))) \<noteq> 0"
  unfolding metadata_originality_analysis_def Let_def raw_score_def
  by (simp add: fl_evals)

section \<open>The short-number formatter\<close>

lemmas text_evals = short_number_def str_int_def fmt_round1_def trunc_def digit_char_def fl_evals

lemma short_number_examples:
  "short_number 999 = ''999''" "short_number 1500 = ''1.5K''"
  "short_number 1000000 = ''1.0M''" "short_number 250 = ''250''"
  by (simp_all add: text_evals)

lemma short_number_below_1000: "n < 1000 \<Longrightarrow> short_number n = str_int n"
  by (simp add: short_number_def)

lemma scaled_nonneg: "0 \<le> v \<Longrightarrow> 0 \<le> scaled v k"
proof (induction k arbitrary: v)
  case 0
  then show ?case by simp
next
  case (Suc k)
  from Suc.prems have "0 \<le> fdiv v 1000" by (simp add: fdiv_def fl_nonneg)
  then show ?case using Suc.IH by simp
qed

lemma scaled_mono: "0 \<le> v \<Longrightarrow> v \<le> w \<Longrightarrow> scaled v k \<le> scaled w k"
proof (induction k arbitrary: v w)
  case 0
  then show ?case by simp
next
  case (Suc k)
  from Suc.prems have "0 \<le> fdiv v 1000" by (simp add: fdiv_def fl_nonneg)
  moreover from Suc.prems have "fdiv v 1000 \<le> fdiv w 1000"
    unfolding fdiv_def by (intro fl_mono) simp_all
  ultimately show ?case using Suc.IH by simp
qed

lemma short_loop_scaled:
  assumes "k < length units" "\<forall>j<k. 1000 \<le> scaled v j"
    and "0 \<le> scaled v k" "scaled v k < 1000"
  shows "short_loop v units =
     (if units ! k = [] then str_int (trunc (scaled v k))
      else if 100 \<le> scaled v k then str_int (round_half_even (scaled v k)) @ units ! k
      else fmt_round1 (scaled v k) @ units ! k)"
  using assms
proof (induction k arbitrary: v units)
  case 0
  then obtain u us where "units = u # us" by (cases units) auto
  with 0 show ?case by simp
next
  case (Suc k)
  then obtain u us where units: "units = u # us" by (cases units) auto
  from Suc.prems(2) have "1000 \<le> scaled v 0" by blast
  then have big: "\<not> \<bar>v\<bar> < 1000" by simp
  have rest: "\<forall>j<k. 1000 \<le> scaled (fdiv v 1000) j"
  proof (intro allI impI)
    fix j assume "j < k"
    then have "Suc j < Suc k" by simp
    with Suc.prems(2) have "1000 \<le> scaled v (Suc j)" by blast
    then show "1000 \<le> scaled (fdiv v 1000) j" by simp
  qed
  from Suc.prems(1) units have "k < length us" by simp
  from Suc.IH [OF this rest] Suc.prems(3,4) units big show ?case by simp
qed

lemma short_number_between:
  assumes "1000 \<le> lo" "lo \<le> n" "n \<le> hi" "k < 5"
    and "\<forall>j<k. 1000 \<le> scaled (fl (of_int lo)) j"
    and "1 \<le> scaled (fl (of_int lo)) k" "scaled (fl (of_int hi)) k < 1000"
  shows "1 \<le> scaled (fl (of_int n)) k \<and> scaled (fl (of_int n)) k < 1000 \<and>
     short_number n =
       (if [[], ''K'', ''M'', ''B'', ''T''] ! k = [] then str_int (trunc (scaled (fl (of_int n)) k))
        else if 100 \<le> scaled (fl (of_int n)) k
          then str_int (round_half_even (scaled (fl (of_int n)) k)) @ [[], ''K'', ''M'', ''B'', ''T''] ! k
        else fmt_round1 (scaled (fl (of_int n)) k) @ [[], ''K'', ''M'', ''B'', ''T''] ! k)"
proof -
  have lo: "0 \<le> fl (of_int lo)" "fl (of_int lo) \<le> fl (of_int n)"
    using assms(1,2) by (simp_all add: fl_nonneg fl_mono)
  have hi: "0 \<le> fl (of_int n)" "fl (of_int n) \<le> fl (of_int hi)"
    using assms(1-3) by (simp_all add: fl_nonneg fl_mono)
  have below: "scaled (fl (of_int lo)) j \<le> scaled (fl (of_int n)) j" for j
    using lo by (rule scaled_mono)
  have large: "\<forall>j<k. 1000 \<le> scaled (fl (of_int n)) j"
    using assms(5) below by (meson order_trans)
  have one: "1 \<le> scaled (fl (of_int n)) k"
    using assms(6) below [of k] by simp
  have small: "scaled (fl (of_int n)) k < 1000"
    using assms(7) scaled_mono [OF hi, of k] by simp
  have "short_loop (fl (of_int n)) [[], ''K'', ''M'', ''B'', ''T''] =
     (if [[], ''K'', ''M'', ''B'', ''T''] ! k = [] then str_int (trunc (scaled (fl (of_int n)) k))
      else if 100 \<le> scaled (fl (of_int n)) k
        then str_int (round_half_even (scaled (fl (of_int n)) k)) @ [[], ''K'', ''M'', ''B'', ''T''] ! k
      else fmt_round1 (scaled (fl (of_int n)) k) @ [[], ''K'', ''M'', ''B'', ''T''] ! k)"
    using assms(4) large one small by (intro short_loop_scaled) simp_all
  with one small assms(1,2) show ?thesis by (simp add: short_number_def)
qed

lemma scaled_numeral:
  "scaled v 1 = fdiv v 1000"
  "scaled v 2 = fdiv (fdiv v 1000) 1000"
  "scaled v 3 = fdiv (fdiv (fdiv v 1000) 1000) 1000"
  "scaled v 4 = fdiv (fdiv (fdiv (fdiv v 1000) 1000) 1000) 1000"
  by (simp_all add: numeral_2_eq_2 numeral_3_eq_3 numeral_Bit0 [of "num.Bit0 num.One"])

lemma scaled_at_thousand:
  "fl (of_int 1000) = 1000" "scaled (fl (of_int 1000)) 1 = 1"
  "scaled (fl (of_int 999999)) 1 < 1000"
  unfolding scaled_numeral by (simp_all add: fl_evals)

lemma scaled_at_million:
  "fl (of_int 1000000) = 1000000" "scaled (fl (of_int 1000000)) 1 = 1000"
  "scaled (fl (of_int 1000000)) 2 = 1" "scaled (fl (of_int 999999999)) 2 < 1000"
  unfolding scaled_numeral by (simp_all add: fl_evals)

lemma scaled_at_billion:
  "fl (of_int 1000000000) = 1000000000" "scaled (fl (of_int 1000000000)) 1 = 1000000"
  "scaled (fl (of_int 1000000000)) 2 = 1000" "scaled (fl (of_int 1000000000)) 3 = 1"
  "scaled (fl (of_int 999999999999)) 3 < 1000"
  unfolding scaled_numeral by (simp_all add: fl_evals)

lemma scaled_at_trillion:
  "fl (of_int 1000000000000) = 1000000000000"
  "scaled (fl (of_int 1000000000000)) 1 = 1000000000"
  "scaled (fl (of_int 1000000000000)) 2 = 1000000"
  "scaled (fl (of_int 1000000000000)) 3 = 1000" "scaled (fl (of_int 1000000000000)) 4 = 1"
  "scaled (fl (of_int 999999999999999)) 4 < 1000"
  unfolding scaled_numeral by (simp_all add: fl_evals)


lemma less_numeral_cases:
  "(\<forall>j<(1::nat). P j) = P 0" "(\<forall>j<(2::nat). P j) = (P 0 \<and> P 1)"
  "(\<forall>j<(3::nat). P j) = (P 0 \<and> P 1 \<and> P 2)" "(\<forall>j<(4::nat). P j) = (P 0 \<and> P 1 \<and> P 2 \<and> P 3)"
proof -
  show "(\<forall>j<(1::nat). P j) = P 0" by simp
  show "(\<forall>j<(2::nat). P j) = (P 0 \<and> P 1)"
    by (auto simp: numeral_2_eq_2 less_Suc_eq)
  show "(\<forall>j<(3::nat). P j) = (P 0 \<and> P 1 \<and> P 2)"
    by (auto simp: numeral_3_eq_3 numeral_2_eq_2 less_Suc_eq)
  have 4: "(4::nat) = Suc 3" by simp
  show "(\<forall>j<(4::nat). P j) = (P 0 \<and> P 1 \<and> P 2 \<and> P 3)"
    unfolding 4 by (auto simp: numeral_3_eq_3 numeral_2_eq_2 less_Suc_eq)
qed

lemma short_number_K:
  assumes "1000 \<le> n" "n < 1000000"
  shows "1 \<le> scaled (fl (of_int n)) 1 \<and> scaled (fl (of_int n)) 1 < 1000 \<and>
     short_number n =
       (if 100 \<le> scaled (fl (of_int n)) 1
        then str_int (round_half_even (scaled (fl (of_int n)) 1)) @ ''K''
        else fmt_round1 (scaled (fl (of_int n)) 1) @ ''K'')"
  using short_number_between [of 1000 n 999999 1] assms scaled_at_thousand
  by (simp add: less_numeral_cases)

lemma short_number_M:
  assumes "1000000 \<le> n" "n < 1000000000"
  shows "1 \<le> scaled (fl (of_int n)) 2 \<and> scaled (fl (of_int n)) 2 < 1000 \<and>
     short_number n =
       (if 100 \<le> scaled (fl (of_int n)) 2
        then str_int (round_half_even (scaled (fl (of_int n)) 2)) @ ''M''
        else fmt_round1 (scaled (fl (of_int n)) 2) @ ''M'')"
  using short_number_between [of 1000000 n 999999999 2] assms scaled_at_million
  by (simp add: less_numeral_cases)

lemma short_number_B:
  assumes "1000000000 \<le> n" "n < 1000000000000"
  shows "1 \<le> scaled (fl (of_int n)) 3 \<and> scaled (fl (of_int n)) 3 < 1000 \<and>
     short_number n =
       (if 100 \<le> scaled (fl (of_int n)) 3
        then str_int (round_half_even (scaled (fl (of_int n)) 3)) @ ''B''
        else fmt_round1 (scaled (fl (of_int n)) 3) @ ''B'')"
  using short_number_between [of 1000000000 n 999999999999 3] assms scaled_at_billion
  by (simp add: less_numeral_cases)

lemma short_number_T:
  assumes "1000000000000 \<le> n" "n < 1000000000000000"
  shows "1 \<le> scaled (fl (of_int n)) 4 \<and> scaled (fl (of_int n)) 4 < 1000 \<and>
     short_number n =
       (if 100 \<le> scaled (fl (of_int n)) 4
        then str_int (round_half_even (scaled (fl (of_int n)) 4)) @ ''T''
        else fmt_round1 (scaled (fl (of_int n)) 4) @ ''T'')"
  using short_number_between [of 1000000000000 n 999999999999999 4] assms scaled_at_trillion
  by (simp add: less_numeral_cases)

text \<open>
  Claim C4, amended. short_number gives "999", "1.5K" and "250" for 999, 1500 and 250,
  and "1.0M" for 1000000. A number from 0 to 999 is rendered unchanged. A number n with
  1000 ^ k <= n < 1000 ^ (k + 1), for k from 1 to 4, is divided k times by 1000.0; the
  scaled value lies in [1, 1000) and is rendered with the unit K, M, B or T: as the
  rounded integer when it is at least 100, with one decimal otherwise.
\<close>

theorem short_number_scheme:
  "short_number 999 = ''999'' \<and> short_number 1500 = ''1.5K'' \<and>
   short_number 1000000 = ''1.0M'' \<and> short_number 250 = ''250'' \<and>
   (0 \<le> n \<and> n < 1000 \<longrightarrow> short_number n = str_int n) \<and>
   (1 \<le> k \<and> k \<le> 4 \<and> 1000 ^ k \<le> n \<and> n < 1000 ^ (k + 1) \<longrightarrow>
      1 \<le> scaled (fl (of_int n)) k \<and> scaled (fl (of_int n)) k < 1000 \<and>
      short_number n =
        (if 100 \<le> scaled (fl (of_int n)) k
         then str_int (round_half_even (scaled (fl (of_int n)) k)) @ [[], ''K'', ''M'', ''B'', ''T''] ! k
         else fmt_round1 (scaled (fl (of_int n)) k) @ [[], ''K'', ''M'', ''B'', ''T''] ! k))"
proof -
  have units: "1 \<le> scaled (fl (of_int n)) k \<and> scaled (fl (of_int n)) k < 1000 \<and>
      short_number n =
        (if 100 \<le> scaled (fl (of_int n)) k
         then str_int (round_half_even (scaled (fl (of_int n)) k)) @ [[], ''K'', ''M'', ''B'', ''T''] ! k
         else fmt_round1 (scaled (fl (of_int n)) k) @ [[], ''K'', ''M'', ''B'', ''T''] ! k)"
    if k: "1 \<le> k" "k \<le> 4" and n: "1000 ^ k \<le> n" "n < 1000 ^ (k + 1)"
  proof -
    from k consider "k = 1" | "k = 2" | "k = 3" | "k = 4" by linarith
    then show ?thesis
    proof cases
      case 1
      with n show ?thesis using short_number_K [of n] by simp
    next
      case 2
      with n show ?thesis using short_number_M [of n] by simp
    next
      case 3
      with n show ?thesis using short_number_B [of n] by simp
    next
      case 4
      with n show ?thesis using short_number_T [of n] by simp
    qed
  qed
  show ?thesis
    using short_number_examples short_number_below_1000 [of n] units by blast
qed

theorem short_number_scheme_witness:
  "(1::nat) \<le> 1 \<and> (1::nat) \<le> 4 \<and> (1000::int) ^ 1 \<le> 1150 \<and> (1150::int) < 1000 ^ (1 + 1) \<and>
   short_number 1150 = ''1.1K'' \<and> (0::int) \<le> 250 \<and> (250::int) < 1000 \<and>
   short_number 250 = ''250''"
proof -
  have "short_number 1150 = fmt_round1 (scaled (fl (of_int 1150)) 1) @ ''K''"
    using short_number_scheme [of 1150 1] by (simp add: scaled_numeral fl_evals)
  then have "short_number 1150 = ''1.1K''"
    by (simp add: scaled_numeral fmt_round1_def digit_char_def fl_evals)
  moreover have "(0::int) \<le> 250 \<and> (250::int) < 1000" by simp
  with short_number_scheme [of 250 1] have "short_number 250 = str_int 250" by blast
  ultimately show ?thesis
    by (simp add: str_int_def digit_char_def)
qed

text \<open>
  The claim C4 as stated fails at 1000000: the text has one decimal, "1.0M", not "1M".
\<close>

theorem short_number_million_counterexample:
  "short_number 1000000 \<noteq> ''1M''"
  by (simp add: text_evals)

section \<open>The duration codec\<close>

lemmas duration_evals = parse_iso8601_duration_to_seconds_def prefix_stripped_duration_def
  replace_def isdigit_def isdecimal_def int_of_digits_def decimal_value_def digit_value_def
  INT_MAX_STR_DIGITS_def

lemma duration_loop_returns:
  "list_all (\<lambda>c. isdigit c \<longrightarrow> isdecimal c) s \<Longrightarrow> list_all isdecimal num
     \<Longrightarrow> length num + length s \<le> INT_MAX_STR_DIGITS
     \<Longrightarrow> \<exists>n. duration_loop s num sec = Inr n"
proof (induction s arbitrary: num sec)
  case Nil
  then show ?case by simp
next
  case (Cons ch rest)
  show ?case
  proof (cases "isdigit ch")
    case True
    with Cons.prems have "list_all isdecimal (num @ [ch])"
      "length (num @ [ch]) + length rest \<le> INT_MAX_STR_DIGITS" by simp_all
    with Cons.IH [of "num @ [ch]" sec] Cons.prems True show ?thesis by simp
  next
    case False
    have rest: "list_all (\<lambda>c. isdigit c \<longrightarrow> isdecimal c) rest" using Cons.prems by simp
    have after_unit: "\<exists>n. duration_loop rest [] k = Inr n" for k
      using Cons.IH [of "[]" k] rest Cons.prems(3) by simp
    have skipped: "\<exists>n. duration_loop rest num sec = Inr n"
      using Cons.IH [of num sec] rest Cons.prems(2,3) by simp
    show ?thesis
    proof (cases "num = []")
      case True
      with False skipped show ?thesis by simp
    next
      case nonempty: False
      have "length num \<le> INT_MAX_STR_DIGITS" using Cons.prems(3) by simp
      with nonempty Cons.prems(2) have "int_of_digits num = Inr (decimal_value num)"
        by (rule int_of_digits_decimal)
      with False nonempty after_unit show ?thesis by simp
    qed
  qed
qed

lemma parse_duration_returns:
  assumes "list_all (\<lambda>c. isdigit c \<longrightarrow> isdecimal c) dur" "length dur \<le> INT_MAX_STR_DIGITS"
  shows "\<exists>n. parse_iso8601_duration_to_seconds dur = Inr n"
proof (cases "dur = []")
  case True
  then show ?thesis by (simp add: parse_iso8601_duration_to_seconds_def)
next
  case False
  have "set (replace dur ''PT'' []) \<subseteq> set dur"
    using set_replace_from [of "''PT''" "[]" dur] by (simp add: replace_def)
  with assms have "list_all (\<lambda>c. isdigit c \<longrightarrow> isdecimal c) (replace dur ''PT'' [])"
    unfolding list_all_iff by blast
  moreover have "length [] + length (replace dur ''PT'' []) \<le> INT_MAX_STR_DIGITS"
    using length_replace_from [of "''PT''" dur] assms(2) by (simp add: replace_def)
  ultimately have "\<exists>n. duration_loop (replace dur ''PT'' []) [] 0 = Inr n"
    by (intro duration_loop_returns) simp_all
  with False show ?thesis
    by (simp add: parse_iso8601_duration_to_seconds_def)
qed

lemma parse_duration_examples:
  "parse_iso8601_duration_to_seconds [] = Inr 0"
  "parse_iso8601_duration_to_seconds ''PT1H2M3S'' = Inr 3723"
  "parse_iso8601_duration_to_seconds ''PT90S'' = Inr 90"
  by (simp_all add: duration_evals)

lemma duration_loop_digits:
  "list_all isdigit ds \<Longrightarrow> duration_loop (ds @ rest) num sec = duration_loop rest (num @ ds) sec"
  by (induction ds arbitrary: num) simp_all

lemma too_many_digits:
  "parse_iso8601_duration_to_seconds (replicate 4301 (CHR ''1'') @ ''S'') = Inl ValueError"
proof -
  have digit: "isdigit (CHR ''1'')" "\<not> isdigit (CHR ''S'')" by (simp_all add: isdigit_def)
  have "hd ''PT'' \<notin> set (replicate 4301 (CHR ''1'') @ ''S'')" by simp
  then have "replace (replicate 4301 (CHR ''1'') @ ''S'') ''PT'' [] = replicate 4301 (CHR ''1'') @ ''S''"
    by (simp add: replace_def replace_from_absent)
  moreover have "list_all isdigit (replicate 4301 (CHR ''1''))"
    using digit(1) by (simp add: list_all_iff)
  then have "duration_loop (replicate 4301 (CHR ''1'') @ ''S'') [] 0 =
      duration_loop ''S'' ([] @ replicate 4301 (CHR ''1'')) 0"
    by (rule duration_loop_digits)
  moreover have "int_of_digits (replicate 4301 (CHR ''1'')) = Inl ValueError"
    by (simp add: int_of_digits_def INT_MAX_STR_DIGITS_def)
  ultimately show ?thesis
    using digit(2) by (simp add: parse_iso8601_duration_to_seconds_def)
qed

text \<open>
  Claim C5, amended. On every string of at most 4300 characters whose digit characters
  are all decimal digits (every ASCII string is one) the duration codec returns a
  natural number of seconds; it gives 0 for "", 3723 for "PT1H2M3S" and 90 for "PT90S".
  It removes every occurrence of "PT", not only a leading one, and then reads the
  characters from left to right: a digit is appended to the buffer; H, M or S after a
  non-empty buffer adds the buffer times 3600, 60 or 1 to the total and clears the
  buffer; a character that is no digit is skipped when the buffer is empty; any other
  character clears the buffer.
\<close>

theorem duration_codec_on_decimal_digits:
  "(length dur \<le> INT_MAX_STR_DIGITS \<and> list_all (\<lambda>c. isdigit c \<longrightarrow> isdecimal c) dur \<longrightarrow>
      (\<exists>n. parse_iso8601_duration_to_seconds dur = Inr n)) \<and>
   parse_iso8601_duration_to_seconds [] = Inr 0 \<and>
   parse_iso8601_duration_to_seconds ''PT1H2M3S'' = Inr 3723 \<and>
   parse_iso8601_duration_to_seconds ''PT90S'' = Inr 90 \<and>
   (dur \<noteq> [] \<longrightarrow>
      parse_iso8601_duration_to_seconds dur = duration_loop (replace dur ''PT'' []) [] 0) \<and>
   duration_loop [] num sec = Inr sec \<and>
   (isdecimal ch \<longrightarrow> duration_loop (ch # rest) num sec = duration_loop rest (num @ [ch]) sec) \<and>
   (num \<noteq> [] \<and> list_all isdecimal num \<and> length num \<le> INT_MAX_STR_DIGITS \<longrightarrow>
      duration_loop (CHR ''H'' # rest) num sec = duration_loop rest [] (sec + decimal_value num * 3600) \<and>
      duration_loop (CHR ''M'' # rest) num sec = duration_loop rest [] (sec + decimal_value num * 60) \<and>
      duration_loop (CHR ''S'' # rest) num sec = duration_loop rest [] (sec + decimal_value num)) \<and>
   (\<not> isdigit ch \<longrightarrow> duration_loop (ch # rest) [] sec = duration_loop rest [] sec) \<and>
   (\<not> isdigit ch \<and> ch \<noteq> CHR ''H'' \<and> ch \<noteq> CHR ''M'' \<and> ch \<noteq> CHR ''S'' \<longrightarrow>
      duration_loop (ch # rest) num sec = duration_loop rest [] sec)"
proof -
  have units: "\<not> isdigit (CHR ''H'')" "\<not> isdigit (CHR ''M'')" "\<not> isdigit (CHR ''S'')"
    by (simp_all add: isdigit_def)
  have a: "isdecimal ch \<longrightarrow> duration_loop (ch # rest) num sec = duration_loop rest (num @ [ch]) sec"
    by (simp add: isdecimal_isdigit)
  have b: "num \<noteq> [] \<and> list_all isdecimal num \<and> length num \<le> INT_MAX_STR_DIGITS \<longrightarrow>
      duration_loop (CHR ''H'' # rest) num sec = duration_loop rest [] (sec + decimal_value num * 3600) \<and>
      duration_loop (CHR ''M'' # rest) num sec = duration_loop rest [] (sec + decimal_value num * 60) \<and>
      duration_loop (CHR ''S'' # rest) num sec = duration_loop rest [] (sec + decimal_value num)"
    using units by (simp add: int_of_digits_decimal)
  have c: "\<not> isdigit ch \<longrightarrow> duration_loop (ch # rest) [] sec = duration_loop rest [] sec"
    by simp
  have d: "\<not> isdigit ch \<and> ch \<noteq> CHR ''H'' \<and> ch \<noteq> CHR ''M'' \<and> ch \<noteq> CHR ''S'' \<longrightarrow>
      duration_loop (ch # rest) num sec = duration_loop rest [] sec"
    by simp
  have e: "dur \<noteq> [] \<longrightarrow>
      parse_iso8601_duration_to_seconds dur = duration_loop (replace dur ''PT'' []) [] 0"
    by (simp add: parse_iso8601_duration_to_seconds_def)
  show ?thesis
    using parse_duration_returns [of dur] parse_duration_examples a b c d e by simp
qed

theorem duration_codec_on_decimal_digits_witness:
  "length ''P1DT2H'' \<le> INT_MAX_STR_DIGITS \<and>
   list_all (\<lambda>c. isdigit c \<longrightarrow> isdecimal c) ''P1DT2H'' \<and>
   (\<exists>n. parse_iso8601_duration_to_seconds ''P1DT2H'' = Inr n) \<and>
   parse_iso8601_duration_to_seconds ''P1DT2H'' = Inr 7200"
proof -
  have ok: "length ''P1DT2H'' \<le> INT_MAX_STR_DIGITS"
    "list_all (\<lambda>c. isdigit c \<longrightarrow> isdecimal c) ''P1DT2H''"
    by (simp_all add: isdigit_def isdecimal_def INT_MAX_STR_DIGITS_def)
  with duration_codec_on_decimal_digits [of "''P1DT2H''"]
  have "\<exists>n. parse_iso8601_duration_to_seconds ''P1DT2H'' = Inr n" by blast
  moreover have "parse_iso8601_duration_to_seconds ''P1DT2H'' = Inr 7200"
    by (simp add: duration_evals)
  ultimately show ?thesis using ok by blast
qed

text \<open>
  The claim C5 as stated fails. The codec is not total: the superscript two is a digit
  for isdigit and none for int, and a run of 4301 digits is too long for int, so the
  codec raises ValueError on both. And on "1PT2S" the codec, which removes "PT"
  everywhere, gives 12 where removing a leading "PT" only gives 2.
\<close>

theorem duration_codec_counterexample:
  "parse_iso8601_duration_to_seconds [CHR 0xB2, CHR ''S''] = Inl ValueError \<and>
   parse_iso8601_duration_to_seconds (replicate 4301 (CHR ''1'') @ ''S'') = Inl ValueError \<and>
   parse_iso8601_duration_to_seconds ''1PT2S'' = Inr 12 \<and>
   prefix_stripped_duration ''1PT2S'' = Inr 2"
  using too_many_digits by (simp add: duration_evals)

section \<open>The identifier parser\<close>

lemma extract_channel_page:
  assumes "contains ''/channel/'' s"
  shows "\<exists>cid. bind_exc (item (split s ''/channel/'') 1) (\<lambda>a.
           bind_exc (item (split a ''/'') 0) (\<lambda>b.
           bind_exc (item (split b ''?'') 0) (\<lambda>cid.
             Inr (Some cid, Some (''https://www.youtube.com/channel/'' @ cid)))))
         = Inr (Some cid, Some (''https://www.youtube.com/channel/'' @ cid))"
proof -
  obtain a where a: "item (split s ''/channel/'') 1 = Inr a"
    using item_split_second [OF _ assms] by auto
  obtain b where b: "item (split a ''/'') 0 = Inr b"
    using item_split_first by blast
  obtain cid where c: "item (split b ''?'') 0 = Inr cid"
    using item_split_first by blast
  show ?thesis by (rule exI [of _ cid]) (simp add: bind_exc_def a [unfolded One_nat_def] b c)
qed

lemma extract_other_page:
  "\<exists>base. bind_exc (item (split s ''?'') 0) (\<lambda>b. Inr (None, Some (rstrip b ''/'')))
     = Inr (None, Some base)"
proof -
  obtain b where b: "item (split s ''?'') 0 = Inr b"
    using item_split_first by blast
  show ?thesis by (rule exI [of _ "rstrip b ''/''"]) (simp add: bind_exc_def b)
qed

lemma extract_blank:
  "strip (or_empty inp) = [] \<Longrightarrow> extract_channel_from_input inp = Inr (None, None)"
  by (simp add: extract_channel_from_input_def)

lemma extract_not_blank:
  assumes "strip (or_empty inp) \<noteq> []"
  shows "\<exists>cid hint. extract_channel_from_input inp = Inr (cid, Some hint)"
proof -
  define s where "s = strip (or_empty inp)"
  have s: "s \<noteq> []" using assms by (simp add: s_def)
  consider (literal) "startswith s ''UC'' \<and> 20 < length s"
    | (channel) "\<not> (startswith s ''UC'' \<and> 20 < length s)" "contains ''youtube.com'' s"
        "contains ''/channel/'' s"
    | (page) "\<not> (startswith s ''UC'' \<and> 20 < length s)" "contains ''youtube.com'' s"
        "\<not> contains ''/channel/'' s"
    | (handle) "\<not> (startswith s ''UC'' \<and> 20 < length s)" "\<not> contains ''youtube.com'' s"
        "startswith s ''@''"
    | (other) "\<not> (startswith s ''UC'' \<and> 20 < length s)" "\<not> contains ''youtube.com'' s"
        "\<not> startswith s ''@''"
    by blast
  then show ?thesis
  proof cases
    case literal
    with s show ?thesis
      unfolding extract_channel_from_input_def Let_def s_def [symmetric] by simp
  next
    case channel
    have "extract_channel_from_input inp =
        bind_exc (item (split s ''/channel/'') 1) (\<lambda>a.
           bind_exc (item (split a ''/'') 0) (\<lambda>b.
           bind_exc (item (split b ''?'') 0) (\<lambda>cid.
             Inr (Some cid, Some (''https://www.youtube.com/channel/'' @ cid)))))"
      using s channel unfolding extract_channel_from_input_def Let_def s_def [symmetric]
      by auto
    with extract_channel_page [OF channel(3)] show ?thesis by auto
  next
    case page
    have "extract_channel_from_input inp =
        bind_exc (item (split s ''?'') 0) (\<lambda>b. Inr (None, Some (rstrip b ''/'')))"
      using s page unfolding extract_channel_from_input_def Let_def s_def [symmetric]
      by auto
    with extract_other_page [of s] show ?thesis by auto
  next
    case handle
    with s show ?thesis
      unfolding extract_channel_from_input_def Let_def s_def [symmetric] by auto
  next
    case other
    with s show ?thesis
      unfolding extract_channel_from_input_def Let_def s_def [symmetric] by auto
  qed
qed

lemma extract_literal_id:
  assumes "strip (or_empty inp) \<noteq> []"
    and "startswith (strip (or_empty inp)) ''UC'' \<and> 20 < length (strip (or_empty inp))"
  shows "extract_channel_from_input inp =
     Inr (Some (strip (or_empty inp)),
          Some (''https://www.youtube.com/channel/'' @ strip (or_empty inp)))"
  using assms unfolding extract_channel_from_input_def Let_def by simp

lemma extract_no_url:
  assumes "strip (or_empty inp) \<noteq> []"
    and "\<not> (startswith (strip (or_empty inp)) ''UC'' \<and> 20 < length (strip (or_empty inp)))"
    and "\<not> contains ''youtube.com'' (strip (or_empty inp))"
  shows "\<exists>hint. extract_channel_from_input inp = Inr (None, Some hint) \<and> hint \<noteq> []"
  using assms unfolding extract_channel_from_input_def Let_def by auto

lemma extract_channel_url:
  assumes "strip (or_empty inp) \<noteq> []"
    and "\<not> (startswith (strip (or_empty inp)) ''UC'' \<and> 20 < length (strip (or_empty inp)))"
    and "contains ''youtube.com'' (strip (or_empty inp))"
    and "contains ''/channel/'' (strip (or_empty inp))"
  shows "extract_channel_from_input inp =
     Inr (Some (hd (split (hd (split (split (strip (or_empty inp)) ''/channel/'' ! 1) ''/'')) ''?'')),
          Some (''https://www.youtube.com/channel/'' @
                hd (split (hd (split (split (strip (or_empty inp)) ''/channel/'' ! 1) ''/'')) ''?'')))"
proof -
  define s where "s = strip (or_empty inp)"
  have "2 \<le> length (split s ''/channel/'')"
    using split_from_two_pieces [of "''/channel/''" s "[]"] assms(4)
    by (simp add: split_def s_def)
  then have a: "item (split s ''/channel/'') 1 = Inr (split s ''/channel/'' ! 1)"
    by (simp add: item_def)
  have b: "item (split t sep) 0 = Inr (hd (split t sep))" for t sep
    using split_from_nonempty [of sep "[]" t] by (simp add: item_def split_def hd_conv_nth)
  have "extract_channel_from_input inp =
      bind_exc (item (split s ''/channel/'') 1) (\<lambda>a.
         bind_exc (item (split a ''/'') 0) (\<lambda>b.
         bind_exc (item (split b ''?'') 0) (\<lambda>cid.
           Inr (Some cid, Some (''https://www.youtube.com/channel/'' @ cid)))))"
    using assms unfolding extract_channel_from_input_def Let_def s_def [symmetric]
    by auto
  then show ?thesis
    unfolding s_def [symmetric] by (simp add: bind_exc_def a [unfolded One_nat_def] b)
qed

lemma extract_page_url:
  assumes "strip (or_empty inp) \<noteq> []"
    and "\<not> (startswith (strip (or_empty inp)) ''UC'' \<and> 20 < length (strip (or_empty inp)))"
    and "contains ''youtube.com'' (strip (or_empty inp))"
    and "\<not> contains ''/channel/'' (strip (or_empty inp))"
  shows "extract_channel_from_input inp =
     Inr (None, Some (rstrip (hd (split (strip (or_empty inp)) ''?'')) ''/''))"
proof -
  define s where "s = strip (or_empty inp)"
  have b: "item (split s ''?'') 0 = Inr (hd (split s ''?''))"
    using split_from_nonempty [of "''?''" "[]" s] by (simp add: item_def split_def hd_conv_nth)
  have "extract_channel_from_input inp =
      bind_exc (item (split s ''?'') 0) (\<lambda>b. Inr (None, Some (rstrip b ''/'')))"
    using assms unfolding extract_channel_from_input_def Let_def s_def [symmetric]
    by auto
  then show ?thesis
    unfolding s_def [symmetric] by (simp add: bind_exc_def b)
qed

lemma sample_inputs_stripped:
  "strip (or_empty (Some ''?youtube.com'')) = ''?youtube.com''"
  "strip (or_empty (Some ''youtube.com/channel/'')) = ''youtube.com/channel/''"
  "strip (or_empty (Some ''https://www.youtube.com/channel/UCabc/videos?view=0''))
     = ''https://www.youtube.com/channel/UCabc/videos?view=0''"
  "strip (or_empty (Some ''UC0123456789abcdefghijkl'')) = ''UC0123456789abcdefghijkl''"
  "strip (or_empty (Some ''https://www.youtube.com/c/name/?x=1''))
     = ''https://www.youtube.com/c/name/?x=1''"
  by (simp_all add: strip_def or_empty_def isspace_def)

lemma extract_channel_samples:
  "extract_channel_from_input (Some ''?youtube.com'') = Inr (None, Some [])"
  "extract_channel_from_input (Some ''youtube.com/channel/'') =
     Inr (Some [], Some ''https://www.youtube.com/channel/'')"
  "extract_channel_from_input (Some ''https://www.youtube.com/channel/UCabc/videos?view=0'') =
     Inr (Some ''UCabc'', Some ''https://www.youtube.com/channel/UCabc'')"
  "extract_channel_from_input (Some ''https://www.youtube.com/c/name/?x=1'') =
     Inr (None, Some ''https://www.youtube.com/c/name'')"
  unfolding extract_channel_from_input_def Let_def sample_inputs_stripped
  by (simp_all add: split_def item_def bind_exc_def rstrip_def)

text \<open>
  Claim C10, amended. extract_channel_from_input returns a pair for every input, None
  included, and raises nothing; the pair is (None, None) exactly when the input
  stripped of whitespace is empty; for every other input the second component, the
  canonical URL or lookup hint, is not None. A component that is not None can be the
  empty string. For a stripped input s that is not empty:
  a literal id (s starts with "UC" and has more than 20 characters) gives the id s and
  the URL of its channel; when s is no literal id and does not contain "youtube.com"
  the id is None and the hint is not empty; when s contains "youtube.com" and
  "/channel/" the id is the text between the first "/channel/" and the next "/" or "?",
  which may be empty, and the hint is the channel URL of that id; when s contains
  "youtube.com" and no "/channel/" the id is None and the hint is the text before the
  first "?" without its trailing slashes, which may be empty.
\<close>

theorem extract_channel_result_shapes:
  "(\<exists>cid hint. extract_channel_from_input inp = Inr (cid, hint)) \<and>
   (extract_channel_from_input inp = Inr (None, None)) = (strip (or_empty inp) = []) \<and>
   (strip (or_empty inp) \<noteq> [] \<longrightarrow>
      (\<exists>cid hint. extract_channel_from_input inp = Inr (cid, Some hint))) \<and>
   (strip (or_empty inp) \<noteq> [] \<and> startswith (strip (or_empty inp)) ''UC'' \<and>
    20 < length (strip (or_empty inp)) \<longrightarrow>
      extract_channel_from_input inp =
        Inr (Some (strip (or_empty inp)),
             Some (''https://www.youtube.com/channel/'' @ strip (or_empty inp)))) \<and>
   (strip (or_empty inp) \<noteq> [] \<and>
    \<not> (startswith (strip (or_empty inp)) ''UC'' \<and> 20 < length (strip (or_empty inp))) \<and>
    \<not> contains ''youtube.com'' (strip (or_empty inp)) \<longrightarrow>
      (\<exists>hint. extract_channel_from_input inp = Inr (None, Some hint) \<and> hint \<noteq> [])) \<and>
   (strip (or_empty inp) \<noteq> [] \<and>
    \<not> (startswith (strip (or_empty inp)) ''UC'' \<and> 20 < length (strip (or_empty inp))) \<and>
    contains ''youtube.com'' (strip (or_empty inp)) \<and>
    contains ''/channel/'' (strip (or_empty inp)) \<longrightarrow>
      extract_channel_from_input inp =
        Inr (Some (hd (split (hd (split (split (strip (or_empty inp)) ''/channel/'' ! 1) ''/'')) ''?'')),
             Some (''https://www.youtube.com/channel/'' @
                   hd (split (hd (split (split (strip (or_empty inp)) ''/channel/'' ! 1) ''/'')) ''?'')))) \<and>
   (strip (or_empty inp) \<noteq> [] \<and>
    \<not> (startswith (strip (or_empty inp)) ''UC'' \<and> 20 < length (strip (or_empty inp))) \<and>
    contains ''youtube.com'' (strip (or_empty inp)) \<and>
    \<not> contains ''/channel/'' (strip (or_empty inp)) \<longrightarrow>
      extract_channel_from_input inp =
        Inr (None, Some (rstrip (hd (split (strip (or_empty inp)) ''?'')) ''/'')))"
proof -
  have total: "(\<exists>cid hint. extract_channel_from_input inp = Inr (cid, hint)) \<and>
     (extract_channel_from_input inp = Inr (None, None)) = (strip (or_empty inp) = []) \<and>
     (strip (or_empty inp) \<noteq> [] \<longrightarrow>
        (\<exists>cid hint. extract_channel_from_input inp = Inr (cid, Some hint)))"
  proof (cases "strip (or_empty inp) = []")
    case True
    then show ?thesis using extract_blank [OF True] by simp
  next
    case False
    from extract_not_blank [OF False] obtain cid hint where
      "extract_channel_from_input inp = Inr (cid, Some hint)" by blast
    with False show ?thesis by simp
  qed
  show ?thesis
    using total extract_literal_id [of inp] extract_no_url [of inp]
      extract_channel_url [of inp] extract_page_url [of inp]
    by blast
qed

theorem extract_channel_result_shapes_witness:
  "strip (or_empty (Some '' @somehandle '')) \<noteq> [] \<and>
   \<not> contains ''youtube.com'' (strip (or_empty (Some '' @somehandle ''))) \<and>
   extract_channel_from_input (Some '' @somehandle '')
     = Inr (None, Some ''https://www.youtube.com/@somehandle'') \<and>
   extract_channel_from_input (Some ''   '') = Inr (None, None) \<and>
   extract_channel_from_input None = Inr (None, None) \<and>
   startswith (strip (or_empty (Some ''UC0123456789abcdefghijkl''))) ''UC'' \<and>
   20 < length (strip (or_empty (Some ''UC0123456789abcdefghijkl''))) \<and>
   extract_channel_from_input (Some ''UC0123456789abcdefghijkl'')
     = Inr (Some ''UC0123456789abcdefghijkl'',
            Some ''https://www.youtube.com/channel/UC0123456789abcdefghijkl'') \<and>
   contains ''youtube.com'' (strip (or_empty (Some ''https://www.youtube.com/channel/UCabc/videos?view=0''))) \<and>
   contains ''/channel/'' (strip (or_empty (Some ''https://www.youtube.com/channel/UCabc/videos?view=0''))) \<and>
   extract_channel_from_input (Some ''https://www.youtube.com/channel/UCabc/videos?view=0'')
     = Inr (Some ''UCabc'', Some ''https://www.youtube.com/channel/UCabc'') \<and>
   contains ''youtube.com'' (strip (or_empty (Some ''https://www.youtube.com/c/name/?x=1''))) \<and>
   \<not> contains ''/channel/'' (strip (or_empty (Some ''https://www.youtube.com/c/name/?x=1''))) \<and>
   extract_channel_from_input (Some ''https://www.youtube.com/c/name/?x=1'')
     = Inr (None, Some ''https://www.youtube.com/c/name'')"
proof -
  have a: "strip (or_empty (Some '' @somehandle '')) = ''@somehandle''"
    by (simp add: strip_def or_empty_def isspace_def)
  have b: "strip (or_empty (Some ''   '')) = []" "strip (or_empty None) = []"
    by (simp_all add: strip_def or_empty_def isspace_def)
  have "\<exists>hint. extract_channel_from_input (Some '' @somehandle '') = Inr (None, Some hint) \<and> hint \<noteq> []"
    using extract_channel_result_shapes [of "Some '' @somehandle ''"] a by simp
  moreover have "extract_channel_from_input (Some '' @somehandle '')
     = Inr (None, Some ''https://www.youtube.com/@somehandle'')"
    unfolding extract_channel_from_input_def Let_def a by simp
  moreover have "extract_channel_from_input (Some ''   '') = Inr (None, None)"
    using extract_channel_result_shapes [of "Some ''   ''"] b by simp
  moreover have "extract_channel_from_input None = Inr (None, None)"
    using extract_channel_result_shapes [of None] b by simp
  moreover have "extract_channel_from_input (Some ''UC0123456789abcdefghijkl'')
     = Inr (Some ''UC0123456789abcdefghijkl'',
            Some ''https://www.youtube.com/channel/UC0123456789abcdefghijkl'')"
    using extract_channel_result_shapes [of "Some ''UC0123456789abcdefghijkl''"]
    by (simp add: sample_inputs_stripped)
  moreover have "extract_channel_from_input (Some ''https://www.youtube.com/channel/UCabc/videos?view=0'')
     = Inr (Some ''UCabc'', Some ''https://www.youtube.com/channel/UCabc'')"
    using extract_channel_result_shapes [of "Some ''https://www.youtube.com/channel/UCabc/videos?view=0''"]
    by (simp add: sample_inputs_stripped split_def)
  moreover have "extract_channel_from_input (Some ''https://www.youtube.com/c/name/?x=1'')
     = Inr (None, Some ''https://www.youtube.com/c/name'')"
    using extract_channel_result_shapes [of "Some ''https://www.youtube.com/c/name/?x=1''"]
    by (simp add: sample_inputs_stripped split_def rstrip_def)
  ultimately show ?thesis
    by (simp add: a sample_inputs_stripped)
qed

text \<open>
  The claim C10 as stated fails: a non-blank input does not always yield a direct
  resolution or a usable hint. The input "?youtube.com" gives no id and the empty
  hint, both false for the caller. The input "youtube.com/channel/" gives the empty
  id, which the caller takes as no id, and a hint whose last path segment is empty:
  the analysis sends the search with the empty query.
\<close>

theorem extract_channel_empty_id_and_hint:
  "strip (or_empty (Some ''?youtube.com'')) \<noteq> [] \<and>
   extract_channel_from_input (Some ''?youtube.com'') = Inr (None, Some []) \<and>
   \<not> truthy None \<and> \<not> truthy (Some []) \<and>
   strip (or_empty (Some ''youtube.com/channel/'')) \<noteq> [] \<and>
   extract_channel_from_input (Some ''youtube.com/channel/'') =
     Inr (Some [], Some ''https://www.youtube.com/channel/'') \<and>
   resolve_handle_to_channel_id service_empty (Some ''https://www.youtube.com/channel/'') =
     ([Search []], None) \<and>
   analyze_channel_full service_empty (\<lambda>s. None) 0 (Some ''youtube.com/channel/'') =
     Some ([Search []], Inr (ErrorReport ''Could not resolve channel ID''))"
proof -
  have q: "item_last (split (strip ''https://www.youtube.com/channel/'') ''/'') = Inr []"
    by (simp add: strip_def isspace_def split_def item_last_def)
  have r: "resolve_handle_to_channel_id service_empty (Some ''https://www.youtube.com/channel/'') =
     ([Search []], None)"
    by (simp add: resolve_handle_to_channel_id_def q service_empty_def)
  have a: "analyze_channel_full service_empty (\<lambda>s. None) 0 (Some ''youtube.com/channel/'') =
     Some ([Search []], Inr (ErrorReport ''Could not resolve channel ID''))"
    unfolding analyze_channel_full_def extract_channel_samples
    by (simp add: truthy_def or_else_def r)
  show ?thesis
    using r a by (simp add: extract_channel_samples sample_inputs_stripped truthy_def)
qed

section \<open>The statistics of a channel\<close>

lemma shorts_longs_partition: "length (shorts_of vs) + length (longs_of vs) = length vs"
  unfolding shorts_of_def longs_of_def
  by (induction vs) auto

lemma lifetime_split_covers:
  "v \<in> set vs \<Longrightarrow> v \<in> set (shorts_of vs) \<union> set (longs_of vs)"
  by (auto simp: shorts_of_def longs_of_def)

lemma assemble_report_returns:
  assumes "recent_loop fromiso (cutoff now) videos_meta [] [] = Inr (a, b)"
  shows "\<exists>r. assemble_report ch fromiso now videos_meta = Inr r"
proof -
  obtain score explanation sigs where
    "metadata_originality_analysis videos_meta = (score, explanation, sigs)"
    by (cases "metadata_originality_analysis videos_meta") auto
  with assms show ?thesis
    unfolding assemble_report_def Let_def by simp
qed

lemma assemble_report_fields:
  assumes "assemble_report ch fromiso now videos_meta = Inr r"
  shows "shorts_count r = length (shorts_of videos_meta)"
    and "videos_count r = length (longs_of videos_meta)"
    and "videos_scanned r = length videos_meta"
    and "avg_short_duration_human r = avg_human (avg_duration (shorts_of videos_meta))"
    and "avg_long_duration_human r = avg_human (avg_duration (longs_of videos_meta))"
    and "\<exists>s30 l30. recent_loop fromiso (cutoff now) videos_meta [] [] = Inr (s30, l30) \<and>
           shorts_30d_count r = length s30 \<and> videos_30d_count r = length l30"
  using assms unfolding assemble_report_def Let_def
  by (auto split: sum.splits prod.splits)

lemma sample_report:
  "\<exists>r. assemble_report sample_channel (\<lambda>s. None) 0 [video0, video_at ''soon'' 61] = Inr r"
proof -
  have "recent_loop (\<lambda>s. None) (cutoff 0) [video0, video_at ''soon'' 61] [] [] = Inr ([], [])"
    by (simp add: parse_published_def video0_def video_at_def)
  then show ?thesis by (rule assemble_report_returns)
qed

text \<open>
  Claim C9. For every list of video records the short videos (at most 60 seconds) and
  the long ones partition the list: shorts_count + videos_count = videos_scanned, the
  length of the whole list, in every report.
\<close>

theorem short_long_split_is_partition:
  "length (shorts_of videos_meta) + length (longs_of videos_meta) = length videos_meta \<and>
   (assemble_report ch fromiso now videos_meta = Inr r \<longrightarrow>
      shorts_count r + videos_count r = videos_scanned r \<and>
      videos_scanned r = length videos_meta)"
  using shorts_longs_partition [of videos_meta]
    assemble_report_fields(1-3) [of ch fromiso now videos_meta r]
  by simp

theorem short_long_split_is_partition_witness:
  "\<exists>r. assemble_report sample_channel (\<lambda>s. None) 0 [video0, video_at ''soon'' 61] = Inr r \<and>
        shorts_count r + videos_count r = videos_scanned r \<and> videos_scanned r = 2"
proof -
  from sample_report obtain r where
    r: "assemble_report sample_channel (\<lambda>s. None) 0 [video0, video_at ''soon'' 61] = Inr r"
    by blast
  with short_long_split_is_partition
    [of "[video0, video_at ''soon'' 61]" sample_channel "\<lambda>s. None" 0 r]
  show ?thesis by auto
qed

text \<open>
  Claim C7 fails on the code. A video of length zero (the duration "P0D" of an upcoming
  live stream is read as 0 seconds) is a short video, the average of the short split
  is then 0, and the text is "N/A" although the split is not empty.
\<close>

theorem zero_length_short_average_is_not_available:
  "parse_iso8601_duration_to_seconds ''P0D'' = Inr (duration_seconds video0) \<and>
   shorts_of [video0] = [video0] \<and>
   avg_human (avg_duration (shorts_of [video0])) = ''N/A'' \<and>
   (\<exists>r. assemble_report sample_channel (\<lambda>s. None) 0 [video0] = Inr r \<and>
        shorts_count r = 1 \<and> avg_short_duration_human r = ''N/A'')"
proof -
  have parse: "parse_iso8601_duration_to_seconds ''P0D'' = Inr (duration_seconds video0)"
    by (simp add: duration_evals video0_def)
  have shorts: "shorts_of [video0] = [video0]"
    by (simp add: shorts_of_def video0_def)
  have rendered: "avg_human (avg_duration (shorts_of [video0])) = ''N/A''"
    unfolding shorts by (simp add: avg_duration_def avg_human_def video0_def fdiv_def fl_def)
  have "recent_loop (\<lambda>s. None) (cutoff 0) [video0] [] [] = Inr ([], [])"
    by (simp add: parse_published_def video0_def)
  from assemble_report_returns [OF this] obtain r where
    r: "assemble_report sample_channel (\<lambda>s. None) 0 [video0] = Inr r" by blast
  from assemble_report_fields(1,4) [OF r] shorts rendered
  have "shorts_count r = 1 \<and> avg_short_duration_human r = ''N/A''" by simp
  with parse shorts rendered r show ?thesis by blast
qed

lemma recent_loop_result:
  "recent_loop fromiso c vs s l = Inr (a, b) \<Longrightarrow>
     a = s @ filter (\<lambda>v. is_recent fromiso c v \<and> duration_seconds v \<le> SHORTS_MAX_SECONDS) vs \<and>
     b = l @ filter (\<lambda>v. is_recent fromiso c v \<and> SHORTS_MAX_SECONDS < duration_seconds v) vs"
proof (induction vs arbitrary: s l)
  case Nil
  then show ?case by simp
next
  case (Cons v vs)
  show ?case
  proof (cases "parse_published fromiso v")
    case None
    with Cons.prems have "recent_loop fromiso c vs s l = Inr (a, b)" by simp
    from Cons.IH [OF this] None show ?thesis by (simp add: is_recent_def)
  next
    case (Some d)
    show ?thesis
    proof (cases d)
      case (Naive t)
      with Some Cons.prems show ?thesis by simp
    next
      case (Aware t)
      consider (old) "\<not> c \<le> t"
        | (short) "c \<le> t" "duration_seconds v \<le> SHORTS_MAX_SECONDS"
        | (long) "c \<le> t" "\<not> duration_seconds v \<le> SHORTS_MAX_SECONDS"
        by blast
      then show ?thesis
      proof cases
        case old
        with Some Aware Cons.prems have "recent_loop fromiso c vs s l = Inr (a, b)" by simp
        from Cons.IH [OF this] old Some Aware show ?thesis by (simp add: is_recent_def)
      next
        case short
        with Some Aware Cons.prems have "recent_loop fromiso c vs (s @ [v]) l = Inr (a, b)" by simp
        from Cons.IH [OF this] short Some Aware show ?thesis by (simp add: is_recent_def)
      next
        case long
        with Some Aware Cons.prems have "recent_loop fromiso c vs s (l @ [v]) = Inr (a, b)" by simp
        from Cons.IH [OF this] long Some Aware show ?thesis by (simp add: is_recent_def)
      qed
    qed
  qed
qed

lemma recent_loop_returns:
  "list_all (\<lambda>v. \<not> compares_naive fromiso v) vs \<Longrightarrow> \<exists>a b. recent_loop fromiso c vs s l = Inr (a, b)"
proof (induction vs arbitrary: s l)
  case Nil
  then show ?case by simp
next
  case (Cons v vs)
  then have rest: "\<exists>a b. recent_loop fromiso c vs s' l' = Inr (a, b)" for s' l' by simp
  from Cons.prems have "\<not> compares_naive fromiso v" by simp
  then show ?case
    using rest by (auto simp: compares_naive_def split: option.splits datetime.splits)
qed

lemma recent_loop_filters:
  assumes "list_all (\<lambda>v. \<not> compares_naive fromiso v) vs"
  shows "recent_loop fromiso c vs [] [] =
     Inr (filter (\<lambda>v. is_recent fromiso c v \<and> duration_seconds v \<le> SHORTS_MAX_SECONDS) vs,
          filter (\<lambda>v. is_recent fromiso c v \<and> SHORTS_MAX_SECONDS < duration_seconds v) vs)"
proof -
  from recent_loop_returns [OF assms] obtain a b where
    r: "recent_loop fromiso c vs [] [] = Inr (a, b)" by blast
  from recent_loop_result [OF r] r show ?thesis by simp
qed

lemma sample_times:
  "parse_published sample_fromiso (video_at ''1970-01-31T00:00:00Z'' 30) = Some (Aware 2592000000000)"
  "parse_published sample_fromiso (video_at ''1970-01-30T23:59:59Z'' 30) = Some (Aware 2591999000000)"
  "parse_published sample_fromiso (video_at ''soon'' 300) = None"
  "cutoff 5184000000000 = 2592000000000"
  by (simp_all add: parse_published_def sample_fromiso_def video_at_def replace_def cutoff_def
      RECENT_DAYS_def)

text \<open>
  Claim C6. The cutoff is the clock reading minus 30 days. When no timestamp is naive
  (the comparison would raise), the loop returns the short and the long videos whose
  publishedAt parses to a time at or after the cutoff. A video published exactly at
  the cutoff is in the recent split, one published a second (1000000 microseconds)
  earlier is not, and a video whose publishedAt cannot be parsed is not, while it
  still belongs to the short or to the long videos of the lifetime split. The counts
  of the report are the lengths of the two lists.
\<close>

theorem recency_bucketing:
  "(list_all (\<lambda>v. \<not> compares_naive fromiso v) videos_meta \<longrightarrow>
      recent_loop fromiso (cutoff now) videos_meta [] [] =
        Inr (filter (\<lambda>v. is_recent fromiso (cutoff now) v \<and> duration_seconds v \<le> SHORTS_MAX_SECONDS) videos_meta,
             filter (\<lambda>v. is_recent fromiso (cutoff now) v \<and> SHORTS_MAX_SECONDS < duration_seconds v) videos_meta)) \<and>
   cutoff now = now - 30 * 86400 * 1000000 \<and>
   (parse_published fromiso v = Some (Aware (cutoff now)) \<longrightarrow> is_recent fromiso (cutoff now) v) \<and>
   (parse_published fromiso v = Some (Aware (cutoff now - 1000000)) \<longrightarrow>
      \<not> is_recent fromiso (cutoff now) v) \<and>
   (parse_published fromiso v = None \<longrightarrow>
      \<not> is_recent fromiso (cutoff now) v \<and>
      (v \<in> set videos_meta \<longrightarrow> v \<in> set (shorts_of videos_meta) \<union> set (longs_of videos_meta))) \<and>
   (assemble_report ch fromiso now videos_meta = Inr r \<longrightarrow>
      shorts_30d_count r =
        length (filter (\<lambda>v. is_recent fromiso (cutoff now) v \<and> duration_seconds v \<le> SHORTS_MAX_SECONDS) videos_meta) \<and>
      videos_30d_count r =
        length (filter (\<lambda>v. is_recent fromiso (cutoff now) v \<and> SHORTS_MAX_SECONDS < duration_seconds v) videos_meta))"
proof -
  have report: "assemble_report ch fromiso now videos_meta = Inr r \<Longrightarrow>
      shorts_30d_count r =
        length (filter (\<lambda>v. is_recent fromiso (cutoff now) v \<and> duration_seconds v \<le> SHORTS_MAX_SECONDS) videos_meta) \<and>
      videos_30d_count r =
        length (filter (\<lambda>v. is_recent fromiso (cutoff now) v \<and> SHORTS_MAX_SECONDS < duration_seconds v) videos_meta)"
  proof -
    assume a: "assemble_report ch fromiso now videos_meta = Inr r"
    then obtain s30 l30 where
      loop: "recent_loop fromiso (cutoff now) videos_meta [] [] = Inr (s30, l30)"
      unfolding assemble_report_def Let_def by (auto split: sum.splits)
    with a have "shorts_30d_count r = length s30 \<and> videos_30d_count r = length l30"
      unfolding assemble_report_def Let_def by (auto split: prod.splits)
    with recent_loop_result [OF loop] show ?thesis by simp
  qed
  have "cutoff now = now - 30 * 86400 * 1000000"
    by (simp add: cutoff_def RECENT_DAYS_def)
  then show ?thesis
    using recent_loop_filters [of fromiso videos_meta "cutoff now"] report
      lifetime_split_covers [of v videos_meta]
    by (simp add: is_recent_def)
qed

theorem recency_bucketing_witness:
  "list_all (\<lambda>v. \<not> compares_naive sample_fromiso v)
      [video_at ''1970-01-31T00:00:00Z'' 30, video_at ''1970-01-30T23:59:59Z'' 30,
       video_at ''soon'' 300] \<and>
   recent_loop sample_fromiso (cutoff 5184000000000)
      [video_at ''1970-01-31T00:00:00Z'' 30, video_at ''1970-01-30T23:59:59Z'' 30,
       video_at ''soon'' 300] [] []
     = Inr ([video_at ''1970-01-31T00:00:00Z'' 30], []) \<and>
   is_recent sample_fromiso (cutoff 5184000000000) (video_at ''1970-01-31T00:00:00Z'' 30) \<and>
   \<not> is_recent sample_fromiso (cutoff 5184000000000) (video_at ''1970-01-30T23:59:59Z'' 30) \<and>
   \<not> is_recent sample_fromiso (cutoff 5184000000000) (video_at ''soon'' 300) \<and>
   longs_of [video_at ''1970-01-31T00:00:00Z'' 30, video_at ''1970-01-30T23:59:59Z'' 30,
       video_at ''soon'' 300] = [video_at ''soon'' 300]"
proof -
  define a where "a = video_at ''1970-01-31T00:00:00Z'' 30"
  define b where "b = video_at ''1970-01-30T23:59:59Z'' 30"
  define c where "c = video_at ''soon'' 300"
  define now :: int where "now = 5184000000000"
  have times: "parse_published sample_fromiso a = Some (Aware (cutoff now))"
    "parse_published sample_fromiso b = Some (Aware (cutoff now - 1000000))"
    "parse_published sample_fromiso c = None"
    by (simp_all add: a_def b_def c_def now_def sample_times)
  have ok: "list_all (\<lambda>v. \<not> compares_naive sample_fromiso v) [a, b, c]"
    by (simp add: compares_naive_def times)
  have recent: "is_recent sample_fromiso (cutoff now) a"
    "\<not> is_recent sample_fromiso (cutoff now) b"
    "\<not> is_recent sample_fromiso (cutoff now) c"
    using recency_bucketing [of sample_fromiso "[a, b, c]" now a] times(1)
      recency_bucketing [of sample_fromiso "[a, b, c]" now b] times(2)
      recency_bucketing [of sample_fromiso "[a, b, c]" now c] times(3)
    by blast+
  have seconds: "duration_seconds a = 30" "duration_seconds b = 30" "duration_seconds c = 300"
    by (simp_all add: a_def b_def c_def video_at_def)
  have "recent_loop sample_fromiso (cutoff now) [a, b, c] [] [] =
      Inr (filter (\<lambda>v. is_recent sample_fromiso (cutoff now) v \<and> duration_seconds v \<le> SHORTS_MAX_SECONDS) [a, b, c],
           filter (\<lambda>v. is_recent sample_fromiso (cutoff now) v \<and> SHORTS_MAX_SECONDS < duration_seconds v) [a, b, c])"
    using recency_bucketing [of sample_fromiso "[a, b, c]" now] ok by blast
  also have "\<dots> = Inr ([a], [])"
    by (simp add: recent seconds SHORTS_MAX_SECONDS_def)
  finally have loop: "recent_loop sample_fromiso (cutoff now) [a, b, c] [] [] = Inr ([a], [])" .
  have "longs_of [a, b, c] = [c]"
    by (simp add: longs_of_def seconds SHORTS_MAX_SECONDS_def)
  with ok recent loop show ?thesis
    unfolding a_def b_def c_def now_def by blast
qed

section \<open>Channel analysis and the batch\<close>

lemma fetch_videos_metadata_none: "fetch_videos_metadata yt [] = ([], Inr [])"
  by (simp add: fetch_videos_metadata.simps)

lemma analyze_videos_no_uploads:
  assumes "\<not> truthy (ch_uploads_playlist ch)"
  shows "\<exists>r. analyze_videos yt fromiso now ch = Some ([], Inr (Report r))"
proof -
  have "recent_loop fromiso (cutoff now) [] [] [] = Inr ([], [])" by simp
  from assemble_report_returns [OF this] obtain r where
    "assemble_report ch fromiso now [] = Inr r" by blast
  with assms show ?thesis
    by (simp add: analyze_videos_def fetch_videos_metadata_none bind_exc_def)
qed

lemma strip_blank_split: "strip s = [] \<Longrightarrow> item_last (split (strip s) ''/'') = Inr []"
  by (simp add: split_def item_last_def)

lemma resolve_blank:
  assumes "strip s = []"
  shows "resolve_handle_to_channel_id yt (Some s) =
     ([Search []],
      (case search_list yt [] of Inl e \<Rightarrow> None | Inr [] \<Rightarrow> None | Inr (cid # rest) \<Rightarrow> Some cid))"
  using strip_blank_split [OF assms] by (simp add: resolve_handle_to_channel_id_def)

lemma extract_blank_some: "strip s = [] \<Longrightarrow> extract_channel_from_input (Some s) = Inr (None, None)"
  by (simp add: extract_channel_from_input_def or_empty_def)

lemma analyze_blank_first_call:
  assumes "strip s = []" "analyze_channel_full yt fromiso now (Some s) = Some (sent, r)"
  shows "\<exists>others. sent = Search [] # others"
  using assms(2)
  unfolding analyze_channel_full_def extract_blank_some [OF assms(1)]
  by (auto simp: truthy_def or_else_def resolve_blank [OF assms(1)] fetch_channel_basic_def
      split: if_splits sum.splits option.splits list.splits prod.splits)

lemma analyze_blank_unresolved:
  assumes "strip s = []"
    and "search_list yt [] = Inl e \<or> search_list yt [] = Inr [] \<or> search_list yt [] = Inr ([] # others)"
  shows "analyze_channel_full yt fromiso now (Some s) =
     Some ([Search []], Inr (ErrorReport ''Could not resolve channel ID''))"
  using assms(2)
  unfolding analyze_channel_full_def extract_blank_some [OF assms(1)]
  by (auto simp: truthy_def or_else_def resolve_blank [OF assms(1)])

lemma analyze_via_search:
  assumes "extract_channel_from_input (Some s) = Inr (None, Some s)" and "s \<noteq> []"
    and "item_last (split (strip s) ''/'') = Inr q"
    and "search_list yt q = Inr (cid # others)" and "cid \<noteq> []"
  shows "analyze_channel_full yt fromiso now (Some s) =
     (case channels_list yt cid of
        Inl e \<Rightarrow> Some ([Search q, Channels cid], Inl e)
      | Inr [] \<Rightarrow> Some ([Search q, Channels cid], Inr (ErrorReport ''Channel not found''))
      | Inr (it # rest) \<Rightarrow>
          (case analyze_videos yt fromiso now (it\<lparr>ch_channel_id := cid\<rparr>) of
             None \<Rightarrow> None
           | Some (sent3, r) \<Rightarrow> Some ([Search q, Channels cid] @ sent3, r)))"
  unfolding analyze_channel_full_def assms(1)
  using assms(2-5)
  by (simp add: truthy_def or_else_def or_empty_def resolve_handle_to_channel_id_def
      fetch_channel_basic_def split: sum.splits list.splits option.splits)

lemma extract_UCvalid: "extract_channel_from_input (Some ''UCvalid'') = Inr (None, Some ''UCvalid'')"
  unfolding extract_channel_from_input_def Let_def
  by (simp add: strip_def or_empty_def isspace_def)

lemma extract_UCinvalid:
  "extract_channel_from_input (Some ''UCinvalid'') = Inr (None, Some ''UCinvalid'')"
  unfolding extract_channel_from_input_def Let_def
  by (simp add: strip_def or_empty_def isspace_def)

lemma query_UCvalid: "item_last (split (strip ''UCvalid'') ''/'') = Inr ''UCvalid''"
  by (simp add: strip_def isspace_def split_def item_last_def)

lemma query_UCinvalid: "item_last (split (strip ''UCinvalid'') ''/'') = Inr ''UCinvalid''"
  by (simp add: strip_def isspace_def split_def item_last_def)

lemma analyze_UCinvalid_absent:
  assumes "search_list yt ''UCinvalid'' = Inr (cid # others)" "cid \<noteq> []"
    and "channels_list yt cid = Inr []"
  shows "analyze_channel_full yt fromiso now (Some ''UCinvalid'') =
     Some ([Search ''UCinvalid'', Channels cid], Inr (ErrorReport ''Channel not found''))"
  using analyze_via_search [OF extract_UCinvalid _ query_UCinvalid assms(1,2), of fromiso now]
  by (simp add: assms(3))

lemma sample_channel_no_uploads:
  "\<not> truthy (ch_uploads_playlist (sample_channel\<lparr>ch_channel_id := cid\<rparr>))"
  by (simp add: sample_channel_def truthy_def)

lemma analyze_UCvalid_sample:
  assumes "search_list yt ''UCvalid'' = Inr [''A'']" "channels_list yt ''A'' = Inr [sample_channel]"
  shows "\<exists>r. analyze_channel_full yt fromiso now (Some ''UCvalid'') =
     Some ([Search ''UCvalid'', Channels ''A''], Inr (Report r))"
proof -
  from analyze_videos_no_uploads [OF sample_channel_no_uploads, of yt fromiso now "''A''"]
  obtain r where
    "analyze_videos yt fromiso now (sample_channel\<lparr>ch_channel_id := ''A''\<rparr>) = Some ([], Inr (Report r))"
    by blast
  with analyze_via_search [OF extract_UCvalid _ query_UCvalid assms(1), of fromiso now]
  show ?thesis by (simp add: assms(2))
qed

text \<open>
  Claim C8, amended. For a raw input that is empty or only whitespace the identifier
  parser returns (None, None) without any request. The channel analysis then sends a
  channel search with the empty query as its first request; when that search raises,
  finds nothing or finds an empty id, the analysis fails with "Could not resolve
  channel ID" and sends no other request.
\<close>

theorem blank_input_is_searched:
  "(strip s = [] \<longrightarrow> extract_channel_from_input (Some s) = Inr (None, None)) \<and>
   (strip s = [] \<and> analyze_channel_full yt fromiso now (Some s) = Some (sent, r) \<longrightarrow>
      (\<exists>others. sent = Search [] # others)) \<and>
   (strip s = [] \<and>
    (search_list yt [] = Inl e \<or> search_list yt [] = Inr [] \<or> search_list yt [] = Inr ([] # ids)) \<longrightarrow>
      analyze_channel_full yt fromiso now (Some s) =
        Some ([Search []], Inr (ErrorReport ''Could not resolve channel ID'')))"
  using extract_blank_some [of s] analyze_blank_first_call [of s yt fromiso now sent r]
    analyze_blank_unresolved [of s yt e ids fromiso now]
  by blast

theorem blank_input_is_searched_witness:
  "strip '' '' = [] \<and>
   extract_channel_from_input (Some '' '') = Inr (None, None) \<and>
   analyze_channel_full service_empty (\<lambda>s. None) 0 (Some '' '') =
     Some ([Search []], Inr (ErrorReport ''Could not resolve channel ID''))"
proof -
  have blank: "strip '' '' = []" by (simp add: strip_def isspace_def)
  have search: "search_list service_empty [] = Inr []" by (simp add: service_empty_def)
  from blank search
    blank_input_is_searched [of "'' ''" service_empty "\<lambda>s. None" 0 "[]" "Inl ValueError" ValueError "[]"]
  show ?thesis by simp
qed

text \<open>
  The claim C8 as stated fails: for the input of one space, with a service whose
  search answers the empty query, the analysis sends a search and a channel lookup
  and returns a report.
\<close>

theorem blank_input_reaches_the_search:
  "\<exists>r. analyze_channel_full service_found (\<lambda>s. None) 0 (Some '' '') =
     Some ([Search [], Channels ''UCx''], Inr (Report r))"
proof -
  have blank: "strip '' '' = []" by (simp add: strip_def isspace_def)
  from analyze_videos_no_uploads [OF sample_channel_no_uploads, of service_found "\<lambda>s. None" 0 "''UCx''"]
  obtain r where
    "analyze_videos service_found (\<lambda>s. None) 0 (sample_channel\<lparr>ch_channel_id := ''UCx''\<rparr>)
       = Some ([], Inr (Report r))"
    by blast
  then have "analyze_channel_full service_found (\<lambda>s. None) 0 (Some '' '') =
     Some ([Search [], Channels ''UCx''], Inr (Report r))"
    unfolding analyze_channel_full_def extract_blank_some [OF blank]
    by (simp add: truthy_def or_else_def or_empty_def resolve_blank [OF blank]
        fetch_channel_basic_def service_found_def)
  then show ?thesis by blast
qed

lemma analyze_loop_entries:
  "all_return yt fromiso clock i cs \<Longrightarrow>
     \<exists>sent'. analyze_loop yt fromiso clock i cs results errors sent =
       Some (sent', Inr (results @ expected_results yt fromiso clock i cs,
                         errors @ expected_errors yt fromiso clock i cs))"
proof (induction cs arbitrary: i results errors sent)
  case Nil
  then show ?case by simp
next
  case (Cons c cs)
  from Cons.prems obtain l out where
    a: "analyze_channel_full yt fromiso (clock i) c = Some (l, Inr out)"
    and rest: "all_return yt fromiso clock (Suc i) cs"
    by (auto split: option.splits sum.splits prod.splits)
  show ?case
  proof (cases out)
    case (ErrorReport msg)
    from Cons.IH [OF rest, of results "errors @ [(c, msg)]" "sent @ l"] a ErrorReport
    show ?thesis by simp
  next
    case (Report r)
    from Cons.IH [OF rest, of "results @ [r]" errors "sent @ l"] a Report
    show ?thesis by simp
  qed
qed

lemma expected_entries_length:
  "all_return yt fromiso clock i cs \<Longrightarrow>
     length (expected_results yt fromiso clock i cs) + length (expected_errors yt fromiso clock i cs)
       = length cs"
proof (induction cs arbitrary: i)
  case Nil
  then show ?case by simp
next
  case (Cons c cs)
  from Cons.prems obtain l out where
    a: "analyze_channel_full yt fromiso (clock i) c = Some (l, Inr out)"
    and rest: "all_return yt fromiso clock (Suc i) cs"
    by (auto split: option.splits sum.splits prod.splits)
  from Cons.IH [OF rest] a show ?case by (cases out) simp_all
qed

lemma api_analyze_entries:
  assumes "all_return yt fromiso clock 0 (take MAX_CHANNELS inputs)"
  shows "\<exists>sent. api_analyze yt fromiso clock inputs =
     Some (sent, Success (expected_results yt fromiso clock 0 (take MAX_CHANNELS inputs))
                         (expected_errors yt fromiso clock 0 (take MAX_CHANNELS inputs)))"
  using analyze_loop_entries [OF assms, of "[]" "[]" "[]"]
  by (auto simp: api_analyze_def)

lemma api_analyze_valid_invalid:
  assumes "analyze_channel_full yt fromiso (clock 0) (Some ''UCvalid'') = Some (sent1, Inr (Report r))"
    and "search_list yt ''UCinvalid'' = Inr (cid # others)" "cid \<noteq> []"
    and "channels_list yt cid = Inr []"
  shows "api_analyze yt fromiso clock [Some ''UCvalid'', Some ''UCinvalid''] =
     Some (sent1 @ [Search ''UCinvalid'', Channels cid],
           Success [r] [(Some ''UCinvalid'', ''Channel not found'')])"
  using assms(1) analyze_UCinvalid_absent [OF assms(2-4), of fromiso "clock (Suc 0)"]
  by (simp add: api_analyze_def MAX_CHANNELS_def)

text \<open>
  Claim C2, amended. When every analysis of the first five inputs returns, with a
  report or with an error, the response holds exactly one entry for each of them: its
  own report in results or the pair of the input and its message in errors, in the
  order of the inputs. For the batch ["UCvalid", "UCinvalid"], when the first analysis
  returns a report and the channel lookup of the second finds no channel, results
  holds that one report and errors the one entry ("UCinvalid", "Channel not found").
  Nothing is said here of an analysis that raises.
\<close>

theorem batch_entries_when_analyses_return:
  "(all_return yt fromiso clock 0 (take MAX_CHANNELS inputs) \<longrightarrow>
      (\<exists>sent. api_analyze yt fromiso clock inputs =
         Some (sent, Success (expected_results yt fromiso clock 0 (take MAX_CHANNELS inputs))
                             (expected_errors yt fromiso clock 0 (take MAX_CHANNELS inputs)))) \<and>
      length (expected_results yt fromiso clock 0 (take MAX_CHANNELS inputs))
        + length (expected_errors yt fromiso clock 0 (take MAX_CHANNELS inputs))
        = length (take MAX_CHANNELS inputs)) \<and>
   (analyze_channel_full yt fromiso (clock 0) (Some ''UCvalid'') = Some (sent1, Inr (Report r)) \<and>
    search_list yt ''UCinvalid'' = Inr (cid # others) \<and> cid \<noteq> [] \<and> channels_list yt cid = Inr [] \<longrightarrow>
      api_analyze yt fromiso clock [Some ''UCvalid'', Some ''UCinvalid''] =
        Some (sent1 @ [Search ''UCinvalid'', Channels cid],
              Success [r] [(Some ''UCinvalid'', ''Channel not found'')]))"
  using api_analyze_entries [of yt fromiso clock inputs]
    expected_entries_length [of yt fromiso clock 0 "take MAX_CHANNELS inputs"]
    api_analyze_valid_invalid [of yt fromiso clock sent1 r cid others]
  by blast

theorem batch_entries_when_analyses_return_witness:
  "\<exists>r. analyze_channel_full service_absent (\<lambda>s. None) 0 (Some ''UCvalid'') =
          Some ([Search ''UCvalid'', Channels ''A''], Inr (Report r)) \<and>
        api_analyze service_absent (\<lambda>s. None) (\<lambda>i. 0) [Some ''UCvalid'', Some ''UCinvalid''] =
          Some ([Search ''UCvalid'', Channels ''A'', Search ''UCinvalid'', Channels ''B''],
                Success [r] [(Some ''UCinvalid'', ''Channel not found'')]) \<and>
        all_return service_absent (\<lambda>s. None) (\<lambda>i. 0) 0
          (take MAX_CHANNELS [Some ''UCvalid'', Some ''UCinvalid'']) \<and>
        expected_results service_absent (\<lambda>s. None) (\<lambda>i. 0) 0
          (take MAX_CHANNELS [Some ''UCvalid'', Some ''UCinvalid'']) = [r] \<and>
        expected_errors service_absent (\<lambda>s. None) (\<lambda>i. 0) 0
          (take MAX_CHANNELS [Some ''UCvalid'', Some ''UCinvalid''])
          = [(Some ''UCinvalid'', ''Channel not found'')]"
proof -
  obtain r where valid:
    "analyze_channel_full service_absent (\<lambda>s. None) 0 (Some ''UCvalid'') =
       Some ([Search ''UCvalid'', Channels ''A''], Inr (Report r))"
    using analyze_UCvalid_sample [of service_absent "\<lambda>s. None" 0]
    by (auto simp: service_absent_def)
  have invalid:
    "analyze_channel_full service_absent (\<lambda>s. None) 0 (Some ''UCinvalid'') =
       Some ([Search ''UCinvalid'', Channels ''B''], Inr (ErrorReport ''Channel not found''))"
    using analyze_UCinvalid_absent [of service_absent "''B''" "[]" "\<lambda>s. None" 0]
    by (simp add: service_absent_def)
  have batch: "take MAX_CHANNELS [Some ''UCvalid'', Some ''UCinvalid''] =
      [Some ''UCvalid'', Some ''UCinvalid'']"
    by (simp add: MAX_CHANNELS_def)
  have returns: "all_return service_absent (\<lambda>s. None) (\<lambda>i. 0) 0
      (take MAX_CHANNELS [Some ''UCvalid'', Some ''UCinvalid''])"
    unfolding batch by (simp add: valid invalid)
  have entries:
    "expected_results service_absent (\<lambda>s. None) (\<lambda>i. 0) 0
        (take MAX_CHANNELS [Some ''UCvalid'', Some ''UCinvalid'']) = [r]"
    "expected_errors service_absent (\<lambda>s. None) (\<lambda>i. 0) 0
        (take MAX_CHANNELS [Some ''UCvalid'', Some ''UCinvalid''])
       = [(Some ''UCinvalid'', ''Channel not found'')]"
    unfolding batch by (simp_all add: valid invalid)
  have search: "search_list service_absent ''UCinvalid'' = Inr (''B'' # [])"
    "channels_list service_absent ''B'' = Inr []"
    by (simp_all add: service_absent_def)
  note inst = batch_entries_when_analyses_return
    [of service_absent "\<lambda>s. None" "\<lambda>i. 0" "[Some ''UCvalid'', Some ''UCinvalid'']"
        "[Search ''UCvalid'', Channels ''A'']" r "''B''" "[]"]
  from inst returns have "\<exists>sent.
      api_analyze service_absent (\<lambda>s. None) (\<lambda>i. 0) [Some ''UCvalid'', Some ''UCinvalid''] =
        Some (sent, Success
          (expected_results service_absent (\<lambda>s. None) (\<lambda>i. 0) 0
            (take MAX_CHANNELS [Some ''UCvalid'', Some ''UCinvalid'']))
          (expected_errors service_absent (\<lambda>s. None) (\<lambda>i. 0) 0
            (take MAX_CHANNELS [Some ''UCvalid'', Some ''UCinvalid''])))"
    by blast
  moreover from inst valid search have
    "api_analyze service_absent (\<lambda>s. None) (\<lambda>i. 0) [Some ''UCvalid'', Some ''UCinvalid''] =
       Some ([Search ''UCvalid'', Channels ''A''] @ [Search ''UCinvalid'', Channels ''B''],
             Success [r] [(Some ''UCinvalid'', ''Channel not found'')])"
    by simp
  ultimately show ?thesis using valid returns entries by auto
qed

text \<open>
  The claim C2 as stated fails: when the channel lookup of the second input raises,
  the response is the server error and the report of the first input is lost.
\<close>

theorem batch_aborted_by_exception:
  "(\<exists>r. analyze_channel_full service_broken (\<lambda>s. None) 0 (Some ''UCvalid'') =
          Some ([Search ''UCvalid'', Channels ''A''], Inr (Report r))) \<and>
   api_analyze service_broken (\<lambda>s. None) (\<lambda>i. 0) [Some ''UCvalid'', Some ''UCinvalid''] =
     Some ([Search ''UCvalid'', Channels ''A'', Search ''UCinvalid'', Channels ''B''], ServerError)"
proof -
  obtain r where valid:
    "analyze_channel_full service_broken (\<lambda>s. None) 0 (Some ''UCvalid'') =
       Some ([Search ''UCvalid'', Channels ''A''], Inr (Report r))"
    using analyze_UCvalid_sample [of service_broken "\<lambda>s. None" 0]
    by (auto simp: service_broken_def)
  have invalid:
    "analyze_channel_full service_broken (\<lambda>s. None) 0 (Some ''UCinvalid'') =
       Some ([Search ''UCinvalid'', Channels ''B''], Inl HttpError)"
    using analyze_via_search [OF extract_UCinvalid _ query_UCinvalid,
        of service_broken "''B''" "[]" "\<lambda>s. None" 0]
    by (simp add: service_broken_def)
  from valid invalid show ?thesis
    by (auto simp: api_analyze_def MAX_CHANNELS_def)
qed

end
